theory Spec2Isabelle
  imports Complex_Main "HOL-Library.Word"
begin

unbundle bit_operations_syntax


section \<open>Go strings and the functions of package strings that the engine uses\<close>

text \<open>
  A Go string is a sequence of bytes; it is modelled as a \<^typ>\<open>string\<close>, one
  \<^typ>\<open>char\<close> per byte.
\<close>

definition HasPrefix :: "string \<Rightarrow> string \<Rightarrow> bool" where
  "HasPrefix s p = (take (length p) s = p)"

definition TrimPrefix :: "string \<Rightarrow> string \<Rightarrow> string" where
  "TrimPrefix s p = (if HasPrefix s p then drop (length p) s else s)"

text \<open>\<open>strings.Index\<close>: the position of the first occurrence of \<open>sub\<close> in \<open>s\<close>.\<close>

fun Index :: "string \<Rightarrow> string \<Rightarrow> nat option" where
  "Index [] sub = (if sub = [] then Some 0 else None)"
| "Index (c # cs) sub =
     (if HasPrefix (c # cs) sub then Some 0 else map_option Suc (Index cs sub))"

definition Contains :: "string \<Rightarrow> string \<Rightarrow> bool" where
  "Contains s sub = (Index s sub \<noteq> None)"

text \<open>\<open>strings.TrimLeft\<close> and \<open>strings.TrimRight\<close> remove the characters of a
  cutset; the cutsets of the engine are ASCII, one byte per character.\<close>

definition TrimLeft :: "string \<Rightarrow> string \<Rightarrow> string" where
  "TrimLeft s cutset = dropWhile (\<lambda>c. c \<in> set cutset) s"

definition TrimRight :: "string \<Rightarrow> string \<Rightarrow> string" where
  "TrimRight s cutset = rev (dropWhile (\<lambda>c. c \<in> set cutset) (rev s))"

text \<open>
  \<open>strings.Split(s, sep)\<close> for a separator of one byte, which is how the engine calls
  it (\<open>"\n"\<close> and \<open>"/"\<close>). The empty string splits into one empty field.
\<close>

fun Split :: "string \<Rightarrow> char \<Rightarrow> string list" where
  "Split [] sep = [[]]"
| "Split (c # cs) sep =
     (if c = sep then [] # Split cs sep
      else (case Split cs sep of
              [] \<Rightarrow> [[c]]
            | w # ws \<Rightarrow> (c # w) # ws))"

text \<open>\<open>strings.SplitN(s, sep, 2)\<close>: cut once, at the first occurrence of \<open>sep\<close>.\<close>

definition SplitN2 :: "string \<Rightarrow> string \<Rightarrow> string list" where
  "SplitN2 s sep =
     (case Index s sep of
        None \<Rightarrow> [s]
      | Some i \<Rightarrow> [take i s, drop (i + length sep) s])"

fun Join :: "string list \<Rightarrow> string \<Rightarrow> string" where
  "Join [] sep = []"
| "Join [x] sep = x"
| "Join (x # y # ys) sep = x @ sep @ Join (y # ys) sep"

section \<open>ParseDiff\<close>

record FileDiff =
  Path :: string
  AddedLines :: "string list"

text \<open>
  The loop state of \<open>ParseDiff\<close>: the slice \<open>result\<close> and the pointer \<open>current\<close>,
  which is nil until the first file header.
\<close>

type_synonym parse_state = "FileDiff list \<times> FileDiff option"

definition flush :: "parse_state \<Rightarrow> FileDiff list" where
  "flush st = (case snd st of None \<Rightarrow> fst st | Some cur \<Rightarrow> fst st @ [cur])"

definition parse_line :: "parse_state \<Rightarrow> string \<Rightarrow> parse_state" where
  "parse_line st line =
     (if HasPrefix line ''diff --git '' then
        (flush st, Some \<lparr>Path = [], AddedLines = []\<rparr>)
      else if HasPrefix line ''+++ b/'' then
        (fst st, map_option (\<lambda>cur. cur\<lparr>Path := TrimPrefix line ''+++ b/''\<rparr>) (snd st))
      else if HasPrefix line ''--- '' then st
      else if HasPrefix line ''@@'' then st
      else if HasPrefix line ''+'' then
        (fst st,
         map_option (\<lambda>cur. cur\<lparr>AddedLines := AddedLines cur @ [drop 1 line]\<rparr>) (snd st))
      else st)"

definition ParseDiff :: "string \<Rightarrow> FileDiff list" where
  "ParseDiff diffContent =
     (if diffContent = [] then []
      else flush (foldl parse_line ([], None) (Split diffContent CHR 0x0A)))"

section \<open>filepath.Match of the Go standard library\<close>

text \<open>
  The engine matches paths with \<open>path/filepath.Match\<close>, which is not part of the
  repository. It is modelled here after the library's algorithm on a Unix build (the
  separator is \<open>/\<close> and the backslash escapes): the pattern is cut into chunks at
  its stars, a chunk is matched at the current position of the name, and a star lets the
  position move forward over bytes other than \<open>/\<close>.
\<close>

text \<open>\<open>utf8.DecodeRuneInString\<close>: the first code point of a string and its width.\<close>

definition RuneError :: nat where
  "RuneError = 0xFFFD"

definition DecodeRuneInString :: "string \<Rightarrow> nat \<times> nat" where
  "DecodeRuneInString s =
     (case s of
        [] \<Rightarrow> (RuneError, 0)
      | c0 # _ \<Rightarrow>
          (let s0 = (of_char c0 :: nat) in
           if s0 < 0x80 then (s0, 1)
           else if s0 < 0xC2 \<or> 0xF4 < s0 then (RuneError, 1)
           else
             (let sz = (if s0 < 0xE0 then 2 else if s0 < 0xF0 then 3 else 4 :: nat);
                  lo = (if s0 = 0xE0 then 0xA0 else if s0 = 0xF0 then 0x90 else 0x80 :: nat);
                  hi = (if s0 = 0xED then 0x9F else if s0 = 0xF4 then 0x8F else 0xBF :: nat)
              in if length s < sz then (RuneError, 1)
                 else
                   (let s1 = (of_char (s ! 1) :: nat) in
                    if s1 < lo \<or> hi < s1 then (RuneError, 1)
                    else if sz \<le> 2 then ((s0 mod 32) * 64 + s1 mod 64, 2)
                    else
                      (let s2 = (of_char (s ! 2) :: nat) in
                       if s2 < 0x80 \<or> 0xBF < s2 then (RuneError, 1)
                       else if sz \<le> 3 then
                         ((s0 mod 16) * 4096 + (s1 mod 64) * 64 + s2 mod 64, 3)
                       else
                         (let s3 = (of_char (s ! 3) :: nat) in
                          if s3 < 0x80 \<or> 0xBF < s3 then (RuneError, 1)
                          else ((s0 mod 8) * 262144 + (s1 mod 64) * 4096
                                  + (s2 mod 64) * 64 + s3 mod 64, 4)))))))"

text \<open>
  \<open>scanChunk\<close>: the leading stars are dropped, and the chunk runs up to the next star
  that is outside a bracket expression.
\<close>

fun scan_index :: "string \<Rightarrow> bool \<Rightarrow> nat" where
  "scan_index [] inrange = 0"
| "scan_index (c # cs) inrange =
     (if c = CHR 0x5C then
        (case cs of [] \<Rightarrow> 1 | _ # ds \<Rightarrow> 2 + scan_index ds inrange)
      else if c = CHR ''['' then 1 + scan_index cs True
      else if c = CHR '']'' then 1 + scan_index cs False
      else if c = CHR ''*'' then (if inrange then 1 + scan_index cs inrange else 0)
      else 1 + scan_index cs inrange)"

definition scanChunk :: "string \<Rightarrow> bool \<times> string \<times> string" where
  "scanChunk pattern =
     (let star = (pattern \<noteq> [] \<and> hd pattern = CHR ''*'');
          p = dropWhile (\<lambda>c. c = CHR ''*'') pattern;
          i = scan_index p False
      in (star, take i p, drop i p))"

text \<open>\<open>getEsc\<close> reads one, possibly escaped, character of a bracket expression;
  \<open>None\<close> is \<open>ErrBadPattern\<close>.\<close>

definition getEsc :: "string \<Rightarrow> (nat \<times> string) option" where
  "getEsc chunk =
     (if chunk = [] \<or> hd chunk = CHR ''-'' \<or> hd chunk = CHR '']'' then None
      else
        (let chunk1 = (if hd chunk = CHR 0x5C then tl chunk else chunk) in
         if chunk1 = [] then None
         else
           (let rn = DecodeRuneInString chunk1;
                nchunk = drop (snd rn) chunk1
            in if fst rn = RuneError \<and> snd rn = 1 then None
               else if nchunk = [] then None
               else Some (fst rn, nchunk))))"

lemma DecodeRuneInString_width: "s \<noteq> [] \<Longrightarrow> 0 < snd (DecodeRuneInString s)"
  by (cases s) (simp_all add: DecodeRuneInString_def Let_def)

lemma getEsc_shorter: "getEsc chunk = Some (r, nchunk) \<Longrightarrow> length nchunk < length chunk"
proof -
  assume a: "getEsc chunk = Some (r, nchunk)"
  define chunk1 where "chunk1 = (if hd chunk = CHR 0x5C then tl chunk else chunk)"
  from a have ne: "chunk \<noteq> []" "chunk1 \<noteq> []"
    and n: "nchunk = drop (snd (DecodeRuneInString chunk1)) chunk1"
    by (auto simp: getEsc_def Let_def chunk1_def split: if_splits)
  have "length nchunk < length chunk1"
    using DecodeRuneInString_width [OF ne(2)] ne(2) n by simp
  moreover have "length chunk1 \<le> length chunk"
    by (simp add: chunk1_def)
  ultimately show ?thesis by simp
qed

text \<open>
  The ranges of a bracket expression, up to its closing bracket: \<open>r\<close> is the character
  of the name, \<open>nrange\<close> counts the ranges read so far, \<open>match\<close> records whether one
  of them holds \<open>r\<close>. The result is \<open>match\<close> and the rest of the chunk.
\<close>

function class_ranges :: "nat \<Rightarrow> string \<Rightarrow> nat \<Rightarrow> bool \<Rightarrow> (bool \<times> string) option" where
  "class_ranges r chunk nrange match =
     (if chunk \<noteq> [] \<and> hd chunk = CHR '']'' \<and> 0 < nrange then Some (match, tl chunk)
      else
        (case getEsc chunk of
           None \<Rightarrow> None
         | Some (lo, chunk1) \<Rightarrow>
             (if hd chunk1 = CHR ''-'' then
                (case getEsc (tl chunk1) of
                   None \<Rightarrow> None
                 | Some (hi, chunk2) \<Rightarrow>
                     class_ranges r chunk2 (Suc nrange) (match \<or> (lo \<le> r \<and> r \<le> hi)))
              else class_ranges r chunk1 (Suc nrange) (match \<or> (lo \<le> r \<and> r \<le> lo)))))"
  by pat_completeness auto
termination
proof (relation "measure (\<lambda>(r, chunk, nrange, match). length chunk)", goal_cases)
  case 1
  show ?case by simp
next
  case (2 r chunk nrange match x2 lo chunk1 x2a hi chunk2)
  then have "length chunk1 < length chunk" "length chunk2 < length (tl chunk1)"
    by (auto dest: getEsc_shorter)
  then show ?case by simp
next
  case (3 r chunk nrange match x2 lo chunk1)
  then show ?case by (auto dest: getEsc_shorter)
qed

declare class_ranges.simps [simp del]

lemma class_ranges_shorter:
  "class_ranges r chunk nrange match = Some (m, rest) \<Longrightarrow> length rest < Suc (length chunk)"
proof (induction r chunk nrange match rule: class_ranges.induct)
  case (1 r chunk nrange match)
  show ?case
  proof (cases "chunk \<noteq> [] \<and> hd chunk = CHR '']'' \<and> 0 < nrange")
    case True
    with "1.prems" show ?thesis by (auto simp: class_ranges.simps [of r chunk])
  next
    case False
    note eq = class_ranges.simps [of r chunk nrange match]
    with "1.prems" False obtain lo chunk1 where g1: "getEsc chunk = Some (lo, chunk1)"
      by (auto split: option.splits)
    have l1: "length chunk1 < length chunk" using g1 by (rule getEsc_shorter)
    show ?thesis
    proof (cases "hd chunk1 = CHR ''-''")
      case True
      with "1.prems" False g1 eq obtain hi chunk2 where g2: "getEsc (tl chunk1) = Some (hi, chunk2)"
        by (auto split: option.splits)
      have l2: "length chunk2 < length (tl chunk1)" using g2 by (rule getEsc_shorter)
      have "length rest < Suc (length chunk2)"
        using "1.IH"(1) [OF False _ _ True _ _] "1.prems" False g1 g2 True eq by simp
      with l1 l2 show ?thesis by simp
    next
      case F2: False
      have "length rest < Suc (length chunk1)"
        using "1.IH"(2) [OF False _ _ F2] "1.prems" False g1 F2 eq by simp
      with l1 show ?thesis by simp
    qed
  qed
qed

text \<open>
  \<open>matchChunk\<close> matches a chunk (literals, \<open>?\<close> and bracket expressions) at the
  beginning of \<open>s\<close>. Once the match has failed the loop goes on over the chunk, to
  check that it is well formed, without reading \<open>s\<close>.
\<close>

datatype chunk_result = ErrBadPattern | Failed | Rest string

function matchChunk_loop :: "string \<Rightarrow> string \<Rightarrow> bool \<Rightarrow> chunk_result" where
  "matchChunk_loop chunk s failed0 =
     (if chunk = [] then (if failed0 then Failed else Rest s)
      else
        (let failed = (failed0 \<or> s = []) in
         if hd chunk = CHR ''['' then
           (let r = (if failed then 0 else fst (DecodeRuneInString s));
                s1 = (if failed then s else drop (snd (DecodeRuneInString s)) s);
                chunk1 = tl chunk;
                negated = (chunk1 \<noteq> [] \<and> hd chunk1 = CHR ''^'');
                chunk2 = (if negated then tl chunk1 else chunk1)
            in case class_ranges r chunk2 0 False of
                 None \<Rightarrow> ErrBadPattern
               | Some (match, chunk3) \<Rightarrow>
                   matchChunk_loop chunk3 s1 (failed \<or> match = negated))
         else if hd chunk = CHR ''?'' then
           (if failed then matchChunk_loop (tl chunk) s failed
            else matchChunk_loop (tl chunk) (drop (snd (DecodeRuneInString s)) s)
                   (hd s = CHR ''/''))
         else
           (let chunk1 = (if hd chunk = CHR 0x5C then tl chunk else chunk) in
            if chunk1 = [] then ErrBadPattern
            else if failed then matchChunk_loop (tl chunk1) s failed
            else matchChunk_loop (tl chunk1) (tl s) (hd chunk1 \<noteq> hd s))))"
  by pat_completeness auto
termination
proof (relation "measure (\<lambda>(chunk, s, failed0). length chunk)", goal_cases)
  case 1
  show ?case by simp
next
  case (2 chunk s failed0 failed r s1 chunk1 negated chunk2 x2 match chunk3)
  have "length chunk3 < Suc (length chunk2)"
    using 2 class_ranges_shorter [of r chunk2 0 False match chunk3] by simp
  moreover have "chunk2 = tl chunk1 \<or> chunk2 = chunk1" using 2 by presburger
  then have "length chunk2 \<le> length chunk1" by auto
  moreover have "Suc (length chunk1) = length chunk" using 2 by (cases chunk) simp_all
  ultimately show ?case by simp
next
  case (3 chunk s failed0 failed)
  then show ?case by (cases chunk) simp_all
next
  case (4 chunk s failed0 failed)
  then show ?case by (cases chunk) simp_all
next
  case (5 chunk s failed0 failed chunk1)
  then show ?case by (cases chunk; cases chunk1) (auto split: if_splits)
next
  case (6 chunk s failed0 failed chunk1)
  then show ?case by (cases chunk; cases chunk1) (auto split: if_splits)
qed

declare matchChunk_loop.simps [simp del]

definition matchChunk :: "string \<Rightarrow> string \<Rightarrow> chunk_result" where
  "matchChunk chunk s = matchChunk_loop chunk s False"

text \<open>
  The inner loop of \<open>Match\<close>: after a star, the chunk is tried at every later position
  of the name, up to the first separator. \<open>last_chunk\<close> says that the pattern is
  exhausted, in which case the chunk has to consume the whole name.
\<close>

datatype star_result = StarErr | StarNone | StarRest string

fun star_loop :: "string \<Rightarrow> bool \<Rightarrow> string \<Rightarrow> star_result" where
  "star_loop chunk last_chunk [] = StarNone"
| "star_loop chunk last_chunk (c # cs) =
     (if c = CHR ''/'' then StarNone
      else
        (case matchChunk chunk cs of
           Rest t \<Rightarrow> (if last_chunk \<and> t \<noteq> [] then star_loop chunk last_chunk cs
                      else StarRest t)
         | ErrBadPattern \<Rightarrow> StarErr
         | Failed \<Rightarrow> star_loop chunk last_chunk cs))"

lemma scanChunk_shorter:
  assumes "pattern \<noteq> []" and "(star, chunk, rest) = scanChunk pattern"
  shows "length rest < length pattern"
proof -
  define p where "p = dropWhile (\<lambda>c. c = CHR ''*'') pattern"
  have rest: "rest = drop (scan_index p False) p"
    using assms(2) [symmetric] by (simp add: scanChunk_def Let_def p_def)
  have le: "length p \<le> length pattern"
    by (simp add: p_def length_dropWhile_le)
  show ?thesis
  proof (cases "hd pattern = CHR ''*''")
    case True
    then have "length p < length pattern"
      using assms(1) by (cases pattern) (simp_all add: p_def le_imp_less_Suc length_dropWhile_le)
    then show ?thesis using rest by simp
  next
    case False
    then have pp: "p = pattern" using assms(1) by (cases pattern) (simp_all add: p_def)
    have "0 < scan_index pattern False"
      using False assms(1) by (cases pattern) (auto split: list.splits)
    then show ?thesis using rest pp assms(1) by simp
  qed
qed

text \<open>
  \<open>Match(pattern, name)\<close>. The result is \<open>Inr matched\<close>, or \<open>Inl ()\<close> when
  the matching stops at a malformed chunk with \<open>ErrBadPattern\<close>. Newer releases of
  the library also check the rest of the pattern before they report no match, and
  return the error where an older release returns \<open>false\<close>; \<open>matched\<close> is false
  in both cases, and the callers in the engine act on \<open>matched\<close> only.
\<close>

function Match :: "string \<Rightarrow> string \<Rightarrow> unit + bool" where
  "Match pattern name =
     (if pattern = [] then Inr (name = [])
      else
        (case scanChunk pattern of
           (star, chunk, rest) \<Rightarrow>
             if star \<and> chunk = [] then Inr (\<not> Contains name ''/'')
             else
               (case matchChunk chunk name of
                  ErrBadPattern \<Rightarrow> Inl ()
                | Failed \<Rightarrow>
                    (if star then
                       (case star_loop chunk (rest = []) name of
                          StarErr \<Rightarrow> Inl ()
                        | StarNone \<Rightarrow> Inr False
                        | StarRest t \<Rightarrow> Match rest t)
                     else Inr False)
                | Rest t \<Rightarrow>
                    (if t = [] \<or> rest \<noteq> [] then Match rest t
                     else if star then
                       (case star_loop chunk (rest = []) name of
                          StarErr \<Rightarrow> Inl ()
                        | StarNone \<Rightarrow> Inr False
                        | StarRest t' \<Rightarrow> Match rest t')
                     else Inr False))))"
  by pat_completeness auto
termination
  by (relation "measure (\<lambda>(pattern, name). length pattern)")
     (auto intro: scanChunk_shorter)

declare Match.simps [simp del]

definition matched :: "unit + bool \<Rightarrow> bool" where
  "matched res = (case res of Inl _ \<Rightarrow> False | Inr m \<Rightarrow> m)"

section \<open>The rule checkers\<close>

subsection \<open>Contexts, violations and rule configuration\<close>

record Violation =
  RuleID :: string
  Severity :: string
  Description :: string
  FilePath :: string
  DiffSnippet :: string
  LLMExplanation :: string

text \<open>
  A rule's \<open>Config\<close> is a \<open>map[string]interface{}\<close> read from YAML. The values that
  \<open>getStringSlice\<close> tells apart are a \<open>[]interface{}\<close>, a \<open>[]string\<close> and
  everything else.
\<close>

datatype cfgval =
    VString string
  | VInt int
  | VBool bool
  | VNil
  | VList "cfgval list"
  | VStrings "string list"

record CheckContext =
  ChangedFiles :: "string list"
  DiffContent :: string
  RuleConfig :: "string \<rightharpoonup> cfgval"
  ctx_Severity :: string
  ctx_RuleID :: string
  RuleDesc :: string

text \<open>The errors of a checker: the checker's name and what went wrong.\<close>

datatype config_error =
    MissingConfigKey string
  | ExpectedStringElements string cfgval
  | ExpectedStringSlice string cfgval

datatype check_error =
    ConfigError string config_error
  | InvalidRegex string string

subsection \<open>getStringSlice\<close>

fun string_elements :: "string \<Rightarrow> cfgval list \<Rightarrow> string list \<Rightarrow> config_error + string list" where
  "string_elements key [] result = Inr result"
| "string_elements key (item # items) result =
     (case item of
        VString s \<Rightarrow> string_elements key items (result @ [s])
      | _ \<Rightarrow> Inl (ExpectedStringElements key item))"

definition getStringSlice :: "(string \<rightharpoonup> cfgval) \<Rightarrow> string \<Rightarrow> config_error + string list" where
  "getStringSlice cfg key =
     (case cfg key of
        None \<Rightarrow> Inl (MissingConfigKey key)
      | Some val \<Rightarrow>
          (case val of
             VList v \<Rightarrow> string_elements key v []
           | VStrings v \<Rightarrow> Inr v
           | _ \<Rightarrow> Inl (ExpectedStringSlice key val)))"

subsection \<open>Glob matching\<close>

definition globMatch :: "string \<Rightarrow> string \<Rightarrow> bool" where
  "globMatch path pattern =
     (if Contains pattern ''**'' then
        (let parts = SplitN2 pattern ''**'';
             prefix0 = hd parts;
             suffix = (if 1 < length parts then TrimLeft (parts ! 1) ''/'' else []);
             prefix = (if prefix0 \<noteq> [] then TrimRight prefix0 ''/'' else prefix0)
         in if prefix0 \<noteq> [] \<and> \<not> HasPrefix path prefix then False
            else if suffix \<noteq> [] then
              (let remaining =
                     (if prefix \<noteq> [] then TrimLeft (TrimPrefix path prefix) ''/'' else path);
                   pathParts = Split remaining CHR ''/''
               in list_ex (\<lambda>i. matched (Match suffix (Join (drop i pathParts) ''/'')))
                    [0..<length pathParts])
            else True)
      else matched (Match pattern path))"

definition matchesAnyGlob :: "string \<Rightarrow> string list \<Rightarrow> bool" where
  "matchesAnyGlob file globs = list_ex (globMatch file) globs"

definition filterFilesByGlobs :: "string list \<Rightarrow> string list \<Rightarrow> string list" where
  "filterFilesByGlobs files globs = filter (\<lambda>f. matchesAnyGlob f globs) files"

subsection \<open>imports\_forbidden\<close>

definition extractPathSegments :: "string list \<Rightarrow> string list" where
  "extractPathSegments globs =
     filter (\<lambda>s. s \<noteq> []) (map (\<lambda>g. TrimRight (TrimRight g ''*'') ''/'') globs)"

definition containsSegment :: "string \<Rightarrow> string \<Rightarrow> bool" where
  "containsSegment line segment =
     (Contains line (segment @ ''/'') \<or> Contains line (segment @ ''.''))"

text \<open>\<open>diffMap\<close>: a later file diff with the same path replaces an earlier one.\<close>

definition diffMap :: "FileDiff list \<Rightarrow> (string \<rightharpoonup> FileDiff)" where
  "diffMap fileDiffs = foldl (\<lambda>m fd. m(Path fd \<mapsto> fd)) Map.empty fileDiffs"

definition mkViolation :: "CheckContext \<Rightarrow> string \<Rightarrow> string \<Rightarrow> Violation" where
  "mkViolation ctx file snippet =
     \<lparr>RuleID = ctx_RuleID ctx, Severity = ctx_Severity ctx, Description = RuleDesc ctx,
      FilePath = file, DiffSnippet = snippet, LLMExplanation = []\<rparr>"

text \<open>The loop over the added lines of one file: one violation for a line that contains
  a forbidden segment, the search stopping at the first such segment.\<close>

definition imports_scan_line ::
    "CheckContext \<Rightarrow> string list \<Rightarrow> string \<Rightarrow> Violation list \<Rightarrow> string \<Rightarrow> Violation list" where
  "imports_scan_line ctx forbidSegments file violations addedLine =
     (if list_ex (containsSegment addedLine) forbidSegments
      then violations @ [mkViolation ctx file (''+'' @ addedLine)]
      else violations)"

definition imports_scan_file ::
    "CheckContext \<Rightarrow> string list \<Rightarrow> string list \<Rightarrow> (string \<rightharpoonup> FileDiff)
       \<Rightarrow> Violation list \<Rightarrow> string \<Rightarrow> Violation list" where
  "imports_scan_file ctx fromGlobs forbidSegments dm violations file =
     (if \<not> matchesAnyGlob file fromGlobs then violations
      else
        (case dm file of
           None \<Rightarrow> violations
         | Some fd \<Rightarrow>
             foldl (imports_scan_line ctx forbidSegments file) violations (AddedLines fd)))"

definition ImportsForbiddenChecker_Check :: "CheckContext \<Rightarrow> check_error + Violation list" where
  "ImportsForbiddenChecker_Check ctx =
     (case getStringSlice (RuleConfig ctx) ''from_globs'' of
        Inl err \<Rightarrow> Inl (ConfigError ''imports_forbidden'' err)
      | Inr fromGlobs \<Rightarrow>
          (case getStringSlice (RuleConfig ctx) ''forbid_globs'' of
             Inl err \<Rightarrow> Inl (ConfigError ''imports_forbidden'' err)
           | Inr forbidGlobs \<Rightarrow>
               (let fileDiffs = ParseDiff (DiffContent ctx);
                    dm = diffMap fileDiffs;
                    forbidSegments = extractPathSegments forbidGlobs
                in Inr (foldl (imports_scan_file ctx fromGlobs forbidSegments dm) []
                          (ChangedFiles ctx)))))"

subsection \<open>Regular expressions\<close>

text \<open>
  The checkers compile their patterns with \<open>regexp.Compile\<close> of the Go standard
  library. The library is a parameter of the model: \<open>rc pattern\<close> is \<open>None\<close> when the
  pattern does not compile and otherwise the compiled expression, given as the
  predicate \<open>MatchString\<close> on lines.
\<close>

type_synonym regexp_Compile = "string \<Rightarrow> (string \<Rightarrow> bool) option"

text \<open>The loop that compiles the patterns in turn and stops at the first bad one,
  which it returns.\<close>

fun compile_all ::
    "regexp_Compile \<Rightarrow> string list \<Rightarrow> (string \<Rightarrow> bool) list \<Rightarrow> string + (string \<Rightarrow> bool) list" where
  "compile_all rc [] compiled = Inr compiled"
| "compile_all rc (pattern # patterns) compiled =
     (case rc pattern of
        None \<Rightarrow> Inl pattern
      | Some re \<Rightarrow> compile_all rc patterns (compiled @ [re]))"

subsection \<open>diff\_pattern\_forbidden\<close>

definition forbidden_scan_line ::
    "CheckContext \<Rightarrow> (string \<Rightarrow> bool) list \<Rightarrow> string \<Rightarrow> Violation list \<Rightarrow> string \<Rightarrow> Violation list" where
  "forbidden_scan_line ctx compiled path violations addedLine =
     (if list_ex (\<lambda>re. re addedLine) compiled
      then violations @ [mkViolation ctx path (''+'' @ addedLine)]
      else violations)"

definition forbidden_scan_diff ::
    "CheckContext \<Rightarrow> (string \<Rightarrow> bool) list \<Rightarrow> (string \<rightharpoonup> bool)
       \<Rightarrow> Violation list \<Rightarrow> FileDiff \<Rightarrow> Violation list" where
  "forbidden_scan_diff ctx compiled fileSet violations fd =
     (if fileSet (Path fd) \<noteq> Some True then violations
      else foldl (forbidden_scan_line ctx compiled (Path fd)) violations (AddedLines fd))"

text \<open>The second half of the check: the set of the files to check, and the loop
  over the file diffs.\<close>

definition forbidden_scan ::
    "CheckContext \<Rightarrow> (string \<Rightarrow> bool) list \<Rightarrow> string list \<Rightarrow> Violation list" where
  "forbidden_scan ctx compiled filesToCheck =
     (let fileSet = foldl (\<lambda>m f. m(f \<mapsto> True)) Map.empty filesToCheck;
          fileDiffs = ParseDiff (DiffContent ctx)
      in foldl (forbidden_scan_diff ctx compiled fileSet) [] fileDiffs)"

definition DiffPatternForbiddenChecker_Check ::
    "regexp_Compile \<Rightarrow> CheckContext \<Rightarrow> check_error + Violation list" where
  "DiffPatternForbiddenChecker_Check rc ctx =
     (case getStringSlice (RuleConfig ctx) ''forbidden_regexes'' of
        Inl err \<Rightarrow> Inl (ConfigError ''diff_pattern_forbidden'' err)
      | Inr forbiddenRegexes \<Rightarrow>
          (case compile_all rc forbiddenRegexes [] of
             Inl pattern \<Rightarrow> Inl (InvalidRegex ''diff_pattern_forbidden'' pattern)
           | Inr compiled \<Rightarrow>
               (let onlyInPaths =
                      (case getStringSlice (RuleConfig ctx) ''only_in_paths'' of
                         Inl _ \<Rightarrow> []
                       | Inr v \<Rightarrow> v)
                in if 0 < length onlyInPaths then
                     (let filesToCheck = filterFilesByGlobs (ChangedFiles ctx) onlyInPaths
                      in if length filesToCheck = 0 then Inr []
                         else Inr (forbidden_scan ctx compiled filesToCheck))
                   else Inr (forbidden_scan ctx compiled (ChangedFiles ctx)))))"

subsection \<open>diff\_pattern\_requires\<close>

definition DiffPatternRequiresChecker_Check ::
    "regexp_Compile \<Rightarrow> CheckContext \<Rightarrow> check_error + Violation list" where
  "DiffPatternRequiresChecker_Check rc ctx =
     (case getStringSlice (RuleConfig ctx) ''required_regexes'' of
        Inl err \<Rightarrow> Inl (ConfigError ''diff_pattern_requires'' err)
      | Inr requiredRegexes \<Rightarrow>
          (case getStringSlice (RuleConfig ctx) ''only_in_paths'' of
             Inl err \<Rightarrow> Inl (ConfigError ''diff_pattern_requires'' err)
           | Inr onlyInPaths \<Rightarrow>
               (let matchedFiles = filterFilesByGlobs (ChangedFiles ctx) onlyInPaths in
                if length matchedFiles = 0 then Inr []
                else
                  (case compile_all rc requiredRegexes [] of
                     Inl pattern \<Rightarrow> Inl (InvalidRegex ''diff_pattern_requires'' pattern)
                   | Inr compiled \<Rightarrow>
                       (let fileDiffs = ParseDiff (DiffContent ctx) in
                        if list_ex (\<lambda>fd. list_ex (\<lambda>addedLine.
                                      list_ex (\<lambda>re. re addedLine) compiled) (AddedLines fd))
                             fileDiffs
                        then Inr []
                        else Inr [mkViolation ctx (hd matchedFiles) []])))))"

section \<open>The engine\<close>

record Rule =
  rule_ID :: string
  rule_Description :: string
  rule_Type :: string
  rule_Config :: "string \<rightharpoonup> cfgval"
  rule_Severity :: string

text \<open>Instants of \<open>time.Time\<close> are integers (nanoseconds on the time line); a nil
  \<open>*time.Time\<close> is \<open>None\<close>.\<close>

type_synonym time = int

record Exception =
  exc_ID :: string
  exc_RuleID :: string
  Paths :: "string list"
  Reason :: string
  CreatedBy :: string
  exc_CreatedAt :: time
  ExpiresAt :: "time option"

record Engine =
  Rules :: "Rule list"
  Exceptions :: "Exception list"

record EngineResult =
  Violations :: "Violation list"
  Errors :: nat
  Warnings :: nat

datatype engine_error =
    UnknownRuleType string string
  | CheckingRule string check_error

text \<open>The registry holds the three checkers that \<open>init\<close> registers, under the names
  their \<open>Type\<close> methods return.\<close>

datatype RuleChecker =
    ImportsForbiddenChecker
  | DiffPatternForbiddenChecker
  | DiffPatternRequiresChecker

definition Registry :: "string \<rightharpoonup> RuleChecker" where
  "Registry =
     [''imports_forbidden'' \<mapsto> ImportsForbiddenChecker,
      ''diff_pattern_forbidden'' \<mapsto> DiffPatternForbiddenChecker,
      ''diff_pattern_requires'' \<mapsto> DiffPatternRequiresChecker]"

fun Check :: "regexp_Compile \<Rightarrow> RuleChecker \<Rightarrow> CheckContext \<Rightarrow> check_error + Violation list" where
  "Check rc ImportsForbiddenChecker ctx = ImportsForbiddenChecker_Check ctx"
| "Check rc DiffPatternForbiddenChecker ctx = DiffPatternForbiddenChecker_Check rc ctx"
| "Check rc DiffPatternRequiresChecker ctx = DiffPatternRequiresChecker_Check rc ctx"

text \<open>\<open>isExcepted\<close>: a pattern that \<open>filepath.Match\<close> rejects as malformed is
  skipped.\<close>

definition exception_covers :: "Violation \<Rightarrow> Exception \<Rightarrow> bool" where
  "exception_covers v exc =
     (if exc_RuleID exc \<noteq> RuleID v then False
      else list_ex (\<lambda>pattern.
             (case Match pattern (FilePath v) of
                Inl _ \<Rightarrow> False
              | Inr m \<Rightarrow> m)) (Paths exc))"

definition isExcepted :: "Violation \<Rightarrow> Exception list \<Rightarrow> bool" where
  "isExcepted v exceptions = list_ex (exception_covers v) exceptions"

text \<open>\<open>applyExceptions\<close> reads the clock once; the instant read is the parameter
  \<open>now\<close>. \<open>t.Before(u)\<close> is \<open>t < u\<close>.\<close>

definition activeExceptions :: "time \<Rightarrow> Engine \<Rightarrow> Exception list" where
  "activeExceptions now e =
     filter (\<lambda>exc. \<not> (case ExpiresAt exc of None \<Rightarrow> False | Some t \<Rightarrow> t < now))
       (Exceptions e)"

definition applyExceptions :: "time \<Rightarrow> Engine \<Rightarrow> Violation list \<Rightarrow> Violation list" where
  "applyExceptions now e violations =
     (let active = activeExceptions now e in
      if length active = 0 then violations
      else filter (\<lambda>v. \<not> isExcepted v active) violations)"

definition ruleContext :: "Rule \<Rightarrow> string list \<Rightarrow> string \<Rightarrow> CheckContext" where
  "ruleContext rule changedFiles diffContent =
     \<lparr>ChangedFiles = changedFiles, DiffContent = diffContent, RuleConfig = rule_Config rule,
      ctx_Severity = rule_Severity rule, ctx_RuleID = rule_ID rule,
      RuleDesc = rule_Description rule\<rparr>"

text \<open>The loop of \<open>Run\<close> over the rules, with the slice \<open>allViolations\<close>.\<close>

fun run_rules ::
    "regexp_Compile \<Rightarrow> Rule list \<Rightarrow> string list \<Rightarrow> string \<Rightarrow> Violation list
       \<Rightarrow> engine_error + Violation list" where
  "run_rules rc [] changedFiles diffContent allViolations = Inr allViolations"
| "run_rules rc (rule # rules) changedFiles diffContent allViolations =
     (case Registry (rule_Type rule) of
        None \<Rightarrow> Inl (UnknownRuleType (rule_Type rule) (rule_ID rule))
      | Some checker \<Rightarrow>
          (case Check rc checker (ruleContext rule changedFiles diffContent) of
             Inl err \<Rightarrow> Inl (CheckingRule (rule_ID rule) err)
           | Inr violations \<Rightarrow>
               run_rules rc rules changedFiles diffContent (allViolations @ violations)))"

definition Run ::
    "regexp_Compile \<Rightarrow> time \<Rightarrow> Engine \<Rightarrow> string list \<Rightarrow> string \<Rightarrow> engine_error + EngineResult" where
  "Run rc now e changedFiles diffContent =
     (case run_rules rc (Rules e) changedFiles diffContent [] of
        Inl err \<Rightarrow> Inl err
      | Inr allViolations \<Rightarrow>
          (let filtered = applyExceptions now e allViolations in
           Inr \<lparr>Violations = filtered,
                Errors = length (filter (\<lambda>v. Severity v = ''error'') filtered),
                Warnings = length (filter (\<lambda>v. Severity v = ''warning'') filtered)\<rparr>))"

section \<open>Notions used to state the properties of the engine\<close>

text \<open>A configuration value that \<open>getStringSlice\<close> accepts: a \<open>[]string\<close>, or a
  \<open>[]interface{}\<close> whose elements are all strings.\<close>

definition is_string_slice :: "cfgval \<Rightarrow> bool" where
  "is_string_slice val =
     (case val of
        VStrings _ \<Rightarrow> True
      | VList items \<Rightarrow> list_all (\<lambda>item. case item of VString _ \<Rightarrow> True | _ \<Rightarrow> False) items
      | _ \<Rightarrow> False)"

text \<open>The configuration key that a configuration error is about.\<close>

fun config_error_key :: "config_error \<Rightarrow> string" where
  "config_error_key (MissingConfigKey key) = key"
| "config_error_key (ExpectedStringElements key item) = key"
| "config_error_key (ExpectedStringSlice key val) = key"

text \<open>The claim's derivation of a forbidden segment from a glob: the trailing \<open>*\<close> and
  \<open>/\<close> characters are stripped.\<close>

definition spec_segment :: "string \<Rightarrow> string" where
  "spec_segment g = TrimRight g ''*/''"

text \<open>A rule fails when its type is not registered or its checker returns an error.\<close>

definition rule_error ::
    "regexp_Compile \<Rightarrow> string list \<Rightarrow> string \<Rightarrow> Rule \<Rightarrow> engine_error option" where
  "rule_error rc changedFiles diffContent rule =
     (case Registry (rule_Type rule) of
        None \<Rightarrow> Some (UnknownRuleType (rule_Type rule) (rule_ID rule))
      | Some checker \<Rightarrow>
          (case Check rc checker (ruleContext rule changedFiles diffContent) of
             Inl err \<Rightarrow> Some (CheckingRule (rule_ID rule) err)
           | Inr _ \<Rightarrow> None))"

text \<open>
  For running examples, a stand-in for \<open>regexp.Compile\<close> that agrees with it on the
  patterns of the examples: a pattern of letters matches the lines that contain it,
  and the pattern \<open>(\<close> does not compile.
\<close>

definition example_Compile :: regexp_Compile where
  "example_Compile pattern =
     (if pattern = ''('' then None else Some (\<lambda>line. Contains line pattern))"

text \<open>A required configuration key is bad when it is missing or its value has the wrong
  shape.\<close>

definition bad_key :: "(string \<rightharpoonup> cfgval) \<Rightarrow> string \<Rightarrow> bool" where
  "bad_key cfg key = (case cfg key of None \<Rightarrow> True | Some val \<Rightarrow> \<not> is_string_slice val)"

text \<open>
  The rules that make a run fail, by rule type: a type that is not registered; a
  required key that is bad; a forbidden expression that does not compile; a required
  expression that does not compile while some changed file matches \<open>only_in_paths\<close>.
\<close>

definition uncompilable :: "regexp_Compile \<Rightarrow> string \<Rightarrow> bool" where
  "uncompilable rc pattern = (case rc pattern of None \<Rightarrow> True | Some _ \<Rightarrow> False)"

definition rule_fails :: "regexp_Compile \<Rightarrow> string list \<Rightarrow> Rule \<Rightarrow> bool" where
  "rule_fails rc changedFiles rule =
     (let cfg = rule_Config rule in
      if rule_Type rule = ''imports_forbidden'' then
        bad_key cfg ''from_globs'' \<or> bad_key cfg ''forbid_globs''
      else if rule_Type rule = ''diff_pattern_forbidden'' then
        (case getStringSlice cfg ''forbidden_regexes'' of
           Inl _ \<Rightarrow> True
         | Inr forbiddenRegexes \<Rightarrow> list_ex (uncompilable rc) forbiddenRegexes)
      else if rule_Type rule = ''diff_pattern_requires'' then
        (case getStringSlice cfg ''required_regexes'' of
           Inl _ \<Rightarrow> True
         | Inr requiredRegexes \<Rightarrow>
             (case getStringSlice cfg ''only_in_paths'' of
                Inl _ \<Rightarrow> True
              | Inr onlyInPaths \<Rightarrow>
                  list_ex (\<lambda>f. matchesAnyGlob f onlyInPaths) changedFiles
                  \<and> list_ex (uncompilable rc) requiredRegexes))
      else True)"

section \<open>Governance\<close>

subsection \<open>float64 arithmetic\<close>

text \<open>
  \<open>calculateRequired\<close> computes two of its thresholds in \<open>float64\<close>. A
  \<open>float64\<close> is modelled by its value: a rational number, an infinity or NaN (the
  sign of a zero does not reach any result of the functions below). Every operation
  rounds the exact result to the nearest number with a significand of 53 bits, ties
  to even, as IEEE 754 binary64 arithmetic does.
\<close>

datatype float64 = Finite rat | PosInf | NegInf | NaN

text \<open>The number of binary digits of a positive integer.\<close>

function bitlen :: "int \<Rightarrow> nat" where
  "bitlen n = (if n \<le> 0 then 0 else Suc (bitlen (n div 2)))"
  by pat_completeness auto
termination
  by (relation "measure nat") auto

declare bitlen.simps [simp del]

definition pow2 :: "int \<Rightarrow> rat" where
  "pow2 k = (if 0 \<le> k then 2 ^ nat k else 1 / 2 ^ nat (- k))"

text \<open>The binary exponent of a positive number: \<open>pow2 e \<le> x < pow2 (e + 1)\<close>.\<close>

definition exponent :: "rat \<Rightarrow> int" where
  "exponent x =
     (if 1 \<le> x then int (bitlen \<lfloor>x\<rfloor>) - 1
      else - int (bitlen (\<lceil>1 / x\<rceil> - 1)))"

text \<open>The nearest integer, the even one of two that are equally near.\<close>

definition round_even :: "rat \<Rightarrow> int" where
  "round_even x =
     (let f = \<lfloor>x\<rfloor>; d = x - of_int f
      in if d < 1 / 2 then f
         else if 1 / 2 < d then f + 1
         else if even f then f else f + 1)"

text \<open>
  Rounding to binary64 before the check for overflow: the spacing of the format at
  \<open>x\<close> is \<open>pow2 (e - 52)\<close> for the exponent \<open>e\<close> of \<open>x\<close>, and \<open>pow2 (- 1074)\<close> in
  the subnormal range.
\<close>

definition round64 :: "rat \<Rightarrow> rat" where
  "round64 x =
     (if x = 0 then 0
      else (let q = pow2 (max (exponent \<bar>x\<bar>) (- 1022) - 52)
            in of_int (round_even (x / q)) * q))"

definition float64_of_rat :: "rat \<Rightarrow> float64" where
  "float64_of_rat x =
     (let y = round64 x
      in if pow2 1024 \<le> y then PosInf
         else if y \<le> - pow2 1024 then NegInf
         else Finite y)"

text \<open>The conversion \<open>float64(n)\<close> of an integer.\<close>

definition float64_of_int :: "int \<Rightarrow> float64" where
  "float64_of_int n = float64_of_rat (of_int n)"

fun f64_mul :: "float64 \<Rightarrow> float64 \<Rightarrow> float64" where
  "f64_mul (Finite x) (Finite y) = float64_of_rat (x * y)"
| "f64_mul NaN _ = NaN"
| "f64_mul _ NaN = NaN"
| "f64_mul (Finite x) PosInf = (if x = 0 then NaN else if 0 < x then PosInf else NegInf)"
| "f64_mul (Finite x) NegInf = (if x = 0 then NaN else if 0 < x then NegInf else PosInf)"
| "f64_mul PosInf (Finite y) = (if y = 0 then NaN else if 0 < y then PosInf else NegInf)"
| "f64_mul NegInf (Finite y) = (if y = 0 then NaN else if 0 < y then NegInf else PosInf)"
| "f64_mul PosInf PosInf = PosInf"
| "f64_mul PosInf NegInf = NegInf"
| "f64_mul NegInf PosInf = NegInf"
| "f64_mul NegInf NegInf = PosInf"

text \<open>Division by a finite constant other than zero (the source divides by \<open>3.0\<close>).\<close>

fun f64_div_const :: "float64 \<Rightarrow> rat \<Rightarrow> float64" where
  "f64_div_const (Finite x) c = float64_of_rat (x / c)"
| "f64_div_const PosInf c = (if 0 < c then PosInf else NegInf)"
| "f64_div_const NegInf c = (if 0 < c then NegInf else PosInf)"
| "f64_div_const NaN c = NaN"

text \<open>\<open>math.Ceil\<close>.\<close>

fun Ceil :: "float64 \<Rightarrow> float64" where
  "Ceil (Finite x) = Finite (of_int \<lceil>x\<rceil>)"
| "Ceil PosInf = PosInf"
| "Ceil NegInf = NegInf"
| "Ceil NaN = NaN"

text \<open>
  The conversion \<open>int(f)\<close> truncates towards zero. For a value that an \<open>int\<close> of 64
  bits cannot hold the Go specification leaves the result to the implementation; the
  model gives what amd64 gives, the least integer.
\<close>

definition trunc :: "rat \<Rightarrow> int" where
  "trunc x = (if 0 \<le> x then \<lfloor>x\<rfloor> else \<lceil>x\<rceil>)"

fun int_of_float64 :: "float64 \<Rightarrow> int" where
  "int_of_float64 (Finite x) =
     (if - (2 ^ 63) \<le> trunc x \<and> trunc x < 2 ^ 63 then trunc x else - (2 ^ 63))"
| "int_of_float64 _ = - (2 ^ 63)"

subsection \<open>The constitution\<close>

text \<open>Of the constitution, the fields that the voting code reads.\<close>

record QuorumConfig =
  Type :: string
  Threshold :: float64

record RuleOverride =
  ovr_Quorum :: QuorumConfig

record VoterRef =
  vr_Role :: string

record RoleMember =
  Email :: string

record Role =
  Members :: "RoleMember list"

record Governance =
  Voters :: "VoterRef list"
  Quorum :: QuorumConfig
  ProposalTTLDays :: "64 word"
  PerRuleOverrides :: "string \<rightharpoonup> RuleOverride"

record Constitution =
  Governance :: Governance
  Roles :: "string \<rightharpoonup> Role"

record Proposal =
  ID :: string
  prop_RuleID :: string
  CreatedAt :: time

record Vote =
  ProposalID :: string
  VoterEmail :: string
  Decision :: string
  Comment :: string
  VotedAt :: time

subsection \<open>GetEligibleVoters\<close>

text \<open>The state of the loops: the map \<open>seen\<close> and the slice \<open>voters\<close>. Reading a
  key that \<open>seen\<close> does not hold gives false.\<close>

type_synonym voters_state = "(string \<rightharpoonup> bool) \<times> string list"

definition add_member :: "voters_state \<Rightarrow> RoleMember \<Rightarrow> voters_state" where
  "add_member st member =
     (if fst st (Email member) \<noteq> Some True
      then ((fst st)(Email member \<mapsto> True), snd st @ [Email member])
      else st)"

definition add_role :: "Constitution \<Rightarrow> voters_state \<Rightarrow> VoterRef \<Rightarrow> voters_state" where
  "add_role constitution st voterRef =
     (case Roles constitution (vr_Role voterRef) of
        None \<Rightarrow> st
      | Some role \<Rightarrow> foldl add_member st (Members role))"

definition GetEligibleVoters :: "Constitution \<Rightarrow> string list" where
  "GetEligibleVoters constitution =
     snd (foldl (add_role constitution) (Map.empty, []) (Voters (Governance constitution)))"

subsection \<open>CalculateQuorum\<close>

text \<open>
  Go's \<open>int\<close> has 64 bits on the platforms the program is built for: its sum and
  difference wrap around, its comparisons are signed, and its division truncates
  towards zero. \<open>go_div\<close> is the truncating division of the integers and \<open>int_div\<close>
  the division of \<open>int\<close> (the only divisor of the code is 2).
\<close>

definition go_div :: "int \<Rightarrow> int \<Rightarrow> int" where
  "go_div a b =
     (if (a < 0) = (b < 0) then \<bar>a\<bar> div \<bar>b\<bar> else - (\<bar>a\<bar> div \<bar>b\<bar>))"

definition int_div :: "64 word \<Rightarrow> 64 word \<Rightarrow> 64 word" where
  "int_div a b = word_of_int (go_div (sint a) (sint b))"

record QuorumResult =
  Required :: "64 word"
  YesVotes :: "64 word"
  NoVotes :: "64 word"
  TotalEligible :: "64 word"
  Result :: string

definition calculateRequired :: "QuorumConfig \<Rightarrow> 64 word \<Rightarrow> 64 word" where
  "calculateRequired qc totalEligible =
     (if Type qc = ''majority'' then int_div totalEligible 2 + 1
      else if Type qc = ''two_thirds'' then
        word_of_int (int_of_float64 (Ceil (f64_div_const
          (f64_mul (float64_of_int (sint totalEligible)) (Finite 2)) 3)))
      else if Type qc = ''unanimous'' then totalEligible
      else if Type qc = ''custom'' then
        word_of_int (int_of_float64 (Ceil
          (f64_mul (float64_of_int (sint totalEligible)) (Threshold qc))))
      else int_div totalEligible 2 + 1)"

definition CalculateQuorum ::
  "QuorumConfig \<Rightarrow> 64 word \<Rightarrow> 64 word \<Rightarrow> 64 word \<Rightarrow> QuorumResult" where
  "CalculateQuorum qc totalEligible yesVotes noVotes =
     (let required = calculateRequired qc totalEligible;
          result = (if required \<le>s yesVotes then ''ACCEPTED''
                    else if totalEligible - required <s noVotes then ''REJECTED''
                    else ''PENDING'')
      in \<lparr>Required = required, YesVotes = yesVotes, NoVotes = noVotes,
          TotalEligible = totalEligible, Result = result\<rparr>)"

subsection \<open>ComputeTally\<close>

record TallyResult =
  tally_ProposalID :: string
  tally_RuleID :: string
  EligibleVoters :: "string list"
  Votes :: "Vote list"
  tally_QuorumResult :: QuorumResult
  tally_QuorumConfig :: QuorumConfig
  IsExpired :: bool

text \<open>The loop that counts the votes of eligible voters: the state is the pair of
  \<open>yesVotes\<close> and \<open>noVotes\<close>.\<close>

definition count_vote ::
  "(string \<rightharpoonup> bool) \<Rightarrow> 64 word \<times> 64 word \<Rightarrow> Vote \<Rightarrow> 64 word \<times> 64 word" where
  "count_vote eligibleSet counts vote =
     (if eligibleSet (VoterEmail vote) \<noteq> Some True then counts
      else if Decision vote = ''yes'' then (fst counts + 1, snd counts)
      else if Decision vote = ''no'' then (fst counts, snd counts + 1)
      else counts)"

text \<open>
  A \<open>time.Duration\<close> is an \<open>int64\<close> of nanoseconds, and its arithmetic wraps around.
  \<open>Hour\<close> is the constant \<open>time.Hour\<close>. \<open>t.Add(d)\<close> moves an instant by \<open>d\<close> and
  \<open>t.After(u)\<close> is \<open>u < t\<close>. The clock is read once; the instant read is the
  parameter \<open>now\<close>.
\<close>

definition Hour :: "64 word" where
  "Hour = 3600000000000"

definition Add :: "time \<Rightarrow> 64 word \<Rightarrow> time" where
  "Add t d = t + sint d"

definition ComputeTally :: "time \<Rightarrow> Proposal \<Rightarrow> Vote list \<Rightarrow> Constitution \<Rightarrow> TallyResult" where
  "ComputeTally now proposal votes constitution =
     (let eligibleVoters = GetEligibleVoters constitution;
          eligibleSet = foldl (\<lambda>m email. m(email \<mapsto> True)) Map.empty eligibleVoters;
          qc = (case PerRuleOverrides (Governance constitution) (prop_RuleID proposal) of
                  Some override \<Rightarrow> ovr_Quorum override
                | None \<Rightarrow> Quorum (Governance constitution));
          counts = foldl (count_vote eligibleSet) (0, 0) votes;
          ttlDays = ProposalTTLDays (Governance constitution);
          isExpired = (0 <s ttlDays \<and> Add (CreatedAt proposal) (ttlDays * 24 * Hour) < now);
          quorumResult = CalculateQuorum qc (of_nat (length eligibleVoters)) (fst counts) (snd counts);
          quorumResult' = (if isExpired then quorumResult\<lparr>Result := ''EXPIRED''\<rparr>
                           else quorumResult)
      in \<lparr>tally_ProposalID = ID proposal, tally_RuleID = prop_RuleID proposal,
          EligibleVoters = eligibleVoters, Votes = votes,
          tally_QuorumResult = quorumResult', tally_QuorumConfig = qc,
          IsExpired = isExpired\<rparr>)"

subsection \<open>The eligible voters as the specification describes them\<close>

text \<open>
  The specification's description of the eligible voters: the member emails of the
  declared voter roles, in order, a reference to a role that is not defined contributing
  nothing, and of every email only the first occurrence kept.
\<close>

fun first_occurrences :: "string list \<Rightarrow> string list" where
  "first_occurrences [] = []"
| "first_occurrences (x # xs) = x # first_occurrences (filter (\<lambda>y. y \<noteq> x) xs)"

definition role_emails :: "Constitution \<Rightarrow> VoterRef \<Rightarrow> string list" where
  "role_emails constitution voterRef =
     (case Roles constitution (vr_Role voterRef) of
        None \<Rightarrow> []
      | Some role \<Rightarrow> map Email (Members role))"

definition voter_emails :: "Constitution \<Rightarrow> string list" where
  "voter_emails constitution =
     concat (map (role_emails constitution) (Voters (Governance constitution)))"

text \<open>
  For the proofs: the invariant of the loops, that \<open>seen\<close> holds exactly the
  collected voters, and the step of the loops on the collected voters alone.
\<close>

definition seen_inv :: "voters_state \<Rightarrow> bool" where
  "seen_inv st = (\<forall>e. (fst st e = Some True) = (e \<in> set (snd st)))"

definition ins :: "string list \<Rightarrow> string \<Rightarrow> string list" where
  "ins vs e = (if e \<in> set vs then vs else vs @ [e])"

section \<open>Properties of the diff parser\<close>

lemma Split_not_Nil: "Split s sep \<noteq> []"
  by (induction s) (auto split: list.splits)

lemma Split_append_sep: "Split (a @ sep # b) sep = Split a sep @ Split b sep"
  by (induction a) (auto split: list.splits simp: Split_not_Nil)

lemma Split_append_no_sep:
  "sep \<notin> set a \<Longrightarrow> Split (a @ b) sep = (a @ hd (Split b sep)) # tl (Split b sep)"
  by (induction a) (auto split: list.splits simp: Split_not_Nil)

lemma HasPrefix_append: "HasPrefix (p @ s) p"
  by (simp add: HasPrefix_def)

lemma HasPrefix_decomp: "HasPrefix s p \<Longrightarrow> s = p @ drop (length p) s"
  unfolding HasPrefix_def by (metis append_take_drop_id)

lemma parse_line_acc:
  "parse_line (res, cur) l = (res @ fst (parse_line ([], cur) l), snd (parse_line ([], cur) l))"
  by (simp add: parse_line_def flush_def split: option.splits)

lemma flush_foldl_acc:
  "flush (foldl parse_line (res, cur) ls) = res @ flush (foldl parse_line ([], cur) ls)"
proof (induction ls arbitrary: res cur)
  case Nil
  show ?case by (simp add: flush_def split: option.splits)
next
  case (Cons l ls)
  obtain r c where pl: "parse_line ([], cur) l = (r, c)" by (cases "parse_line ([], cur) l")
  have "flush (foldl parse_line (res, cur) (l # ls)) = flush (foldl parse_line (res @ r, c) ls)"
    using parse_line_acc [of res cur l] pl by simp
  also have "\<dots> = (res @ r) @ flush (foldl parse_line ([], c) ls)"
    by (rule Cons.IH)
  also have "\<dots> = res @ flush (foldl parse_line (r, c) ls)"
    using Cons.IH [of r c] by simp
  finally show ?case using pl by simp
qed

lemma flush_foldl_header:
  assumes "HasPrefix l ''diff --git ''"
  shows "flush (foldl parse_line st (l # ls)) = flush st @ flush (foldl parse_line ([], None) (l # ls))"
proof -
  let ?new = "Some \<lparr>Path = [], AddedLines = []\<rparr>"
  have "flush (foldl parse_line st (l # ls)) = flush (foldl parse_line (flush st, ?new) ls)"
    using assms by (simp add: parse_line_def)
  also have "\<dots> = flush st @ flush (foldl parse_line ([], ?new) ls)"
    by (rule flush_foldl_acc)
  also have "([], ?new) = parse_line ([], None) l"
    using assms by (simp add: parse_line_def flush_def)
  finally show ?thesis by simp
qed

lemma parse_line_empty: "parse_line st [] = st"
  by (simp add: parse_line_def HasPrefix_def)

lemma Split_header:
  assumes "HasPrefix d ''diff --git ''"
  shows "\<exists>l ls. Split d (CHR 0x0A) = l # ls \<and> HasPrefix l ''diff --git ''"
proof -
  define p where "p = ''diff --git ''"
  define r where "r = drop (length p) d"
  have d: "d = p @ r"
    unfolding r_def p_def using assms by (rule HasPrefix_decomp)
  have "CHR 0x0A \<notin> set p" by (simp add: p_def)
  then have "Split (p @ r) (CHR 0x0A) = (p @ hd (Split r (CHR 0x0A))) # tl (Split r (CHR 0x0A))"
    by (rule Split_append_no_sep)
  moreover have "HasPrefix (p @ hd (Split r (CHR 0x0A))) p"
    by (rule HasPrefix_append)
  ultimately show ?thesis unfolding d p_def by blast
qed

lemma ParseDiff_sep:
  assumes "HasPrefix d2 ''diff --git ''"
  shows "ParseDiff (d1 @ CHR 0x0A # d2) = flush (foldl parse_line ([], None) (Split d1 (CHR 0x0A))) @ ParseDiff d2"
proof -
  obtain l ls where sp: "Split d2 (CHR 0x0A) = l # ls" and hp: "HasPrefix l ''diff --git ''"
    using Split_header [OF assms] by blast
  have ne: "d2 \<noteq> []" using assms by (auto simp: HasPrefix_def)
  have "ParseDiff (d1 @ CHR 0x0A # d2)
      = flush (foldl parse_line (foldl parse_line ([], None) (Split d1 (CHR 0x0A))) (l # ls))"
    by (simp add: ParseDiff_def Split_append_sep sp)
  also have "\<dots> = flush (foldl parse_line ([], None) (Split d1 (CHR 0x0A))) @ flush (foldl parse_line ([], None) (l # ls))"
    by (rule flush_foldl_header [OF hp])
  finally show ?thesis using ne by (simp add: ParseDiff_def sp)
qed

lemma ParseDiff_trailing_newline:
  "ParseDiff (d @ [CHR 0x0A]) = flush (foldl parse_line ([], None) (Split d (CHR 0x0A)))"
  using Split_append_sep [of d "CHR 0x0A" "[]"] by (simp add: ParseDiff_def parse_line_empty)

lemma ParseDiff_flush: "flush (foldl parse_line ([], None) (Split d (CHR 0x0A))) = ParseDiff d"
proof (cases "d = []")
  case True then show ?thesis by (simp add: ParseDiff_def parse_line_empty flush_def)
next
  case False then show ?thesis by (simp add: ParseDiff_def)
qed

text \<open>
  Claim C9. Let \<open>d1\<close> and \<open>d2\<close> be two diff texts that each begin with a
  \<open>diff --git\<close> line. If \<open>d1\<close> ends with a newline, so that \<open>d2\<close> starts on a
  fresh line of \<open>d1 @ d2\<close>, then parsing the concatenation gives the file diffs of
  \<open>d1\<close> followed by those of \<open>d2\<close>; the same holds when the two texts are joined
  by a newline.
\<close>

theorem ParseDiff_concat:
  assumes "HasPrefix d1 ''diff --git ''" and "HasPrefix d2 ''diff --git ''"
  shows "(last d1 = CHR 0x0A \<longrightarrow> ParseDiff (d1 @ d2) = ParseDiff d1 @ ParseDiff d2)
       \<and> ParseDiff (d1 @ CHR 0x0A # d2) = ParseDiff d1 @ ParseDiff d2"
proof (intro conjI impI)
  show "ParseDiff (d1 @ CHR 0x0A # d2) = ParseDiff d1 @ ParseDiff d2"
    using ParseDiff_sep [OF assms(2)] by (simp add: ParseDiff_flush)
next
  assume nl: "last d1 = CHR 0x0A"
  have "d1 \<noteq> []" using assms(1) by (auto simp: HasPrefix_def)
  then obtain d where d: "d1 = d @ [CHR 0x0A]" using nl by (metis append_butlast_last_id)
  show "ParseDiff (d1 @ d2) = ParseDiff d1 @ ParseDiff d2"
    using ParseDiff_sep [OF assms(2), of d] by (simp add: d ParseDiff_trailing_newline)
qed

theorem ParseDiff_concat_witness:
  "HasPrefix (''diff --git a/x b/x'' @ [CHR 0x0A] @ ''+++ b/x'' @ [CHR 0x0A] @ ''+one'' @ [CHR 0x0A])
     ''diff --git ''
   \<and> HasPrefix (''diff --git a/y b/y'' @ [CHR 0x0A] @ ''+++ b/y'' @ [CHR 0x0A] @ ''+two'') ''diff --git ''
   \<and> ParseDiff ((''diff --git a/x b/x'' @ [CHR 0x0A] @ ''+++ b/x'' @ [CHR 0x0A] @ ''+one'' @ [CHR 0x0A])
         @ (''diff --git a/y b/y'' @ [CHR 0x0A] @ ''+++ b/y'' @ [CHR 0x0A] @ ''+two''))
     = [\<lparr>Path = ''x'', AddedLines = [''one'']\<rparr>, \<lparr>Path = ''y'', AddedLines = [''two'']\<rparr>]"
proof -
  let ?d1 = "''diff --git a/x b/x'' @ [CHR 0x0A] @ ''+++ b/x'' @ [CHR 0x0A] @ ''+one'' @ [CHR 0x0A]"
  let ?d2 = "''diff --git a/y b/y'' @ [CHR 0x0A] @ ''+++ b/y'' @ [CHR 0x0A] @ ''+two''"
  have h1: "HasPrefix ?d1 ''diff --git ''" by (simp add: HasPrefix_def)
  have h2: "HasPrefix ?d2 ''diff --git ''" by (simp add: HasPrefix_def)
  have l: "last ?d1 = CHR 0x0A" by simp
  have p1: "ParseDiff ?d1 = [\<lparr>Path = ''x'', AddedLines = [''one'']\<rparr>]" by code_simp
  have p2: "ParseDiff ?d2 = [\<lparr>Path = ''y'', AddedLines = [''two'']\<rparr>]" by code_simp
  have "ParseDiff (?d1 @ ?d2) = ParseDiff ?d1 @ ParseDiff ?d2"
    using ParseDiff_concat [OF h1 h2] l by blast
  then show ?thesis using h1 h2 p1 p2 by simp
qed

section \<open>Properties of the governance code\<close>

subsection \<open>Eligible voters\<close>

lemma set_first_occurrences: "set (first_occurrences xs) = set xs"
  by (induction xs rule: first_occurrences.induct) auto

lemma distinct_first_occurrences: "distinct (first_occurrences xs)"
  by (induction xs rule: first_occurrences.induct) (auto simp: set_first_occurrences)

lemma add_member_ins:
  "seen_inv st \<Longrightarrow> seen_inv (add_member st m) \<and> snd (add_member st m) = ins (snd st) (Email m)"
  by (auto simp: seen_inv_def add_member_def ins_def)

lemma foldl_add_member:
  "seen_inv st \<Longrightarrow> seen_inv (foldl add_member st ms)
     \<and> snd (foldl add_member st ms) = foldl ins (snd st) (map Email ms)"
  by (induction ms arbitrary: st) (simp_all add: add_member_ins)

lemma add_role_ins:
  "seen_inv st \<Longrightarrow> seen_inv (add_role c st vr)
     \<and> snd (add_role c st vr) = foldl ins (snd st) (role_emails c vr)"
  by (auto simp: add_role_def role_emails_def foldl_add_member split: option.splits)

lemma foldl_add_role:
  "seen_inv st \<Longrightarrow> seen_inv (foldl (add_role c) st vrs)
     \<and> snd (foldl (add_role c) st vrs) = foldl ins (snd st) (concat (map (role_emails c) vrs))"
  by (induction vrs arbitrary: st) (simp_all add: add_role_ins)

lemma foldl_ins:
  "foldl ins vs es = vs @ first_occurrences (filter (\<lambda>e. e \<notin> set vs) es)"
proof (induction es arbitrary: vs)
  case Nil
  show ?case by simp
next
  case (Cons e es)
  show ?case
  proof (cases "e \<in> set vs")
    case True
    then show ?thesis using Cons.IH [of vs] by (simp add: ins_def)
  next
    case False
    have "filter (\<lambda>x. x \<noteq> e \<and> x \<notin> set vs) es = filter (\<lambda>x. x \<notin> set vs \<and> x \<noteq> e) es"
      by (rule filter_cong) auto
    then show ?thesis using False Cons.IH [of "vs @ [e]"] by (simp add: ins_def)
  qed
qed

text \<open>
  Claim C7. For every constitution the list that \<open>GetEligibleVoters\<close> returns has no
  email twice. It is the list of the member emails of the declared voter roles, taken in
  order, with only the first occurrence of each email kept; a voter reference to a role
  that is not defined contributes no email, and the function returns for every
  constitution.
\<close>

theorem GetEligibleVoters_dedup:
  "distinct (GetEligibleVoters c) \<and> GetEligibleVoters c = first_occurrences (voter_emails c)"
proof -
  have "seen_inv (Map.empty, [])" by (simp add: seen_inv_def)
  from foldl_add_role [OF this, of c "Voters (Governance c)"]
  have "GetEligibleVoters c = foldl ins [] (voter_emails c)"
    by (simp add: GetEligibleVoters_def voter_emails_def)
  then have "GetEligibleVoters c = first_occurrences (voter_emails c)"
    by (simp add: foldl_ins)
  then show ?thesis by (simp add: distinct_first_occurrences)
qed

subsection \<open>float64 rounding\<close>

lemma bitlen_pos: "0 < n \<Longrightarrow> 0 < bitlen n"
  by (subst bitlen.simps) simp

lemma bitlen_le: "n < 2 ^ k \<Longrightarrow> bitlen n \<le> k"
proof (induction k arbitrary: n)
  case 0
  then show ?case by (subst bitlen.simps) simp
next
  case (Suc k)
  show ?case
  proof (cases "n \<le> 0")
    case True
    then show ?thesis by (subst bitlen.simps) simp
  next
    case False
    have "n div 2 < 2 ^ k" using Suc.prems by simp
    then have "bitlen (n div 2) \<le> k" by (rule Suc.IH)
    then show ?thesis using False by (subst bitlen.simps) simp
  qed
qed

lemma bitlen_upper: "n < 2 ^ bitlen n"
proof (induction n rule: bitlen.induct)
  case (1 n)
  show ?case
  proof (cases "n \<le> 0")
    case True
    then have "n < 1" by simp
    then show ?thesis by (subst bitlen.simps) (simp add: True)
  next
    case False
    then have "n div 2 < 2 ^ bitlen (n div 2)" using 1 by simp
    then have "n < 2 * 2 ^ bitlen (n div 2)" by linarith
    then show ?thesis using False by (subst bitlen.simps) simp
  qed
qed

lemma bitlen_lower: "0 < n \<Longrightarrow> 2 ^ (bitlen n - 1) \<le> n"
proof (induction n rule: bitlen.induct)
  case (1 n)
  show ?case
  proof (cases "n div 2 \<le> 0")
    case True
    then have b: "bitlen (n div 2) = 0" by (subst bitlen.simps) simp
    have "bitlen n = 1" using "1.prems" b by (subst bitlen.simps) simp
    then show ?thesis using "1.prems" by simp
  next
    case False
    then have ih: "2 ^ (bitlen (n div 2) - 1) \<le> n div 2" using 1 by simp
    have p: "0 < bitlen (n div 2)" using False by (simp add: bitlen_pos)
    have "bitlen n = Suc (bitlen (n div 2))" using "1.prems" by (subst bitlen.simps) simp
    then have "(2::int) ^ (bitlen n - 1) = 2 * 2 ^ (bitlen (n div 2) - 1)"
      using p by (cases "bitlen (n div 2)") simp_all
    also have "\<dots> \<le> 2 * (n div 2)" using ih by simp
    also have "\<dots> \<le> n" by simp
    finally show ?thesis .
  qed
qed

lemma pow2_powi: "pow2 k = 2 powi k"
  by (simp add: pow2_def power_int_def field_simps)

lemma pow2_pos: "0 < pow2 k"
  by (simp add: pow2_powi)

lemma pow2_nonpos: "k \<le> 0 \<Longrightarrow> pow2 k = 1 / 2 ^ nat (- k)"
  by (cases "k = 0") (simp_all add: pow2_def)

lemma round_even_of_int: "round_even (of_int m) = m"
  by (simp add: round_even_def)

lemma round_even_lower: "x - 1 / 2 \<le> of_int (round_even x)"
  unfolding round_even_def Let_def by (auto simp: not_less) linarith+

lemma round_even_upper: "of_int (round_even x) \<le> x + 1 / 2"
  unfolding round_even_def Let_def by (auto simp: not_less) linarith+

lemma exponent_le:
  assumes "0 < x" and "x < 2 ^ Suc k"
  shows "exponent x \<le> int k"
proof (cases "1 \<le> x")
  case True
  have "\<lfloor>x\<rfloor> < 2 ^ Suc k"
    using assms(2) by (simp add: floor_less_iff)
  then have "bitlen \<lfloor>x\<rfloor> \<le> Suc k" by (rule bitlen_le)
  then show ?thesis using True by (simp add: exponent_def)
next
  case False
  then show ?thesis by (simp add: exponent_def)
qed


lemma round64_of_int:
  assumes "\<bar>m\<bar> < 2 ^ 53"
  shows "round64 (of_int m) = of_int m"
proof (cases "m = 0")
  case True
  then show ?thesis by (simp add: round64_def)
next
  case False
  define x :: rat where "x = \<bar>of_int m\<bar>"
  have x: "0 < x" "x < 2 ^ Suc 52" "1 \<le> x"
    using False assms unfolding x_def
    by (simp_all flip: of_int_abs add: of_int_less_numeral_power_cancel_iff)
  define e where "e = max (exponent x) (- 1022) - 52"
  have "exponent x \<le> 52" using exponent_le [OF x(1,2)] by simp
  then have e: "e \<le> 0" by (simp add: e_def)
  define j where "j = nat (- e)"
  have q: "pow2 e = 1 / 2 ^ j" using pow2_nonpos [OF e] by (simp add: j_def)
  have "of_int m / pow2 e = (of_int (m * 2 ^ j) :: rat)" by (simp add: q)
  then have "round_even (of_int m / pow2 e) = m * 2 ^ j"
    by (simp only: round_even_of_int)
  then have "round64 (of_int m) = of_int (m * 2 ^ j) * (1 / 2 ^ j)"
    using False by (simp add: round64_def Let_def x_def [symmetric] e_def [symmetric] q)
  then show ?thesis by simp
qed

lemma float64_of_int_exact:
  assumes "\<bar>m\<bar> < 2 ^ 53"
  shows "float64_of_int m = Finite (of_int m)"
proof -
  have "(of_int \<bar>m\<bar> :: rat) < 2 ^ 53" using assms by (simp only: of_int_less_numeral_power_cancel_iff)
  also have "(2::rat) ^ 53 \<le> 2 ^ 1024" by (rule power_increasing) simp_all
  finally have "\<bar>of_int m :: rat\<bar> < pow2 1024" by (simp add: pow2_def)
  then show ?thesis
    by (simp add: float64_of_int_def float64_of_rat_def round64_of_int [OF assms] Let_def abs_less_iff)
qed


lemma round64_between:
  assumes "0 < x" and "x < 2 ^ 52"
    and lo: "of_int k + 1 / 3 \<le> x" and hi: "x \<le> of_int k + 2 / 3"
  shows "of_int k < round64 x \<and> round64 x < of_int k + 1"
proof -
  define e where "e = max (exponent x) (- 1022) - 52"
  have "x < 2 ^ Suc 51" using assms(2) by simp
  then have "exponent x \<le> 51" using exponent_le [OF assms(1), of 51] by simp
  then have e: "e \<le> - 1" using assms(1) by (simp add: e_def)
  define j where "j = nat (- e)"
  define P :: rat where "P = 2 ^ j"
  have j: "1 \<le> j" using e by (simp add: j_def)
  have "(2::rat) ^ 1 \<le> 2 ^ j" using j by (intro power_increasing) simp_all
  then have P: "2 \<le> P" by (simp add: P_def)
  have q: "pow2 e = 1 / P" using pow2_nonpos [of e] e by (simp add: j_def P_def)
  define r where "r = round_even (x / pow2 e)"
  have y: "x / pow2 e = x * P" by (simp add: q)
  have r1: "x * P - 1 / 2 \<le> of_int r" using round_even_lower [of "x / pow2 e"] by (simp add: r_def y)
  have r2: "of_int r \<le> x * P + 1 / 2" using round_even_upper [of "x / pow2 e"] by (simp add: r_def y)
  have "(of_int k + 1 / 3) * P \<le> x * P" using lo P by (intro mult_right_mono) simp_all
  then have l1: "of_int k * P + P / 3 \<le> x * P" by (simp add: algebra_simps)
  have "x * P \<le> (of_int k + 2 / 3) * P" using hi P by (intro mult_right_mono) simp_all
  then have u1: "x * P \<le> of_int k * P + P - P / 3" by (simp add: algebra_simps)
  have lower: "of_int k * P < of_int r" using l1 r1 P by linarith
  have upper: "of_int r < (of_int k + 1) * P" using u1 r2 P by (simp add: algebra_simps)
  have val: "round64 x = of_int r / P"
    using assms(1) by (simp add: round64_def Let_def e_def [symmetric] r_def y q)
  have Ppos: "0 < P" using P by simp
  show ?thesis using lower upper Ppos by (simp add: val field_simps)
qed


lemma two_thirds_exact:
  assumes "0 \<le> n" and "n < 2 ^ 52"
  shows "int_of_float64 (Ceil (f64_div_const (f64_mul (float64_of_int n) (Finite 2)) 3))
           = \<lceil>(of_int n * 2 / 3 :: rat)\<rceil>"
proof -
  define x :: rat where "x = of_int n * 2 / 3"
  have n1: "float64_of_int n = Finite (of_int n)"
    using assms by (intro float64_of_int_exact) simp
  have "float64_of_rat (of_int (n * 2)) = Finite (of_int (n * 2))"
    using float64_of_int_exact [of "n * 2"] assms by (simp add: float64_of_int_def)
  then have n2: "f64_mul (float64_of_int n) (Finite 2) = Finite (of_int n * 2)"
    by (simp add: n1)
  have x0: "0 \<le> x" using assms(1) by (simp add: x_def)
  have xlt: "x < 2 ^ 52"
  proof -
    have "(of_int n :: rat) < 2 ^ 52" using assms(2) by (simp only: of_int_less_numeral_power_cancel_iff)
    then show ?thesis using assms(1) by (simp add: x_def)
  qed
  have c: "\<lceil>round64 x\<rceil> = \<lceil>x\<rceil> \<and> \<bar>round64 x\<bar> < 2 ^ 52"
  proof (cases "3 dvd n")
    case True
    then obtain m where m: "n = 3 * m" by (auto simp: dvd_def)
    have xm: "x = of_int (2 * m)" by (simp add: x_def m)
    have "\<bar>2 * m\<bar> < 2 ^ 52" using assms by (simp add: m)
    then have "\<bar>2 * m\<bar> < 2 ^ 53" by simp
    then have "round64 x = x" unfolding xm by (rule round64_of_int)
    then show ?thesis using x0 xlt by simp
  next
    case False
    define k where "k = n * 2 div 3"
    define f where "f = n * 2 mod 3"
    have nk: "n * 2 = 3 * k + f" by (simp add: k_def f_def)
    have "\<not> 3 dvd n * 2" using False by presburger
    then have "f \<noteq> 0" by (simp add: f_def dvd_eq_mod_eq_0)
    moreover have "0 \<le> f" "f < 3" by (simp_all add: f_def)
    ultimately have f: "1 \<le> f" "f \<le> 2" by simp_all
    have "x = of_int (n * 2) / 3" by (simp add: x_def)
    then have xk: "x = of_int k + of_int f / 3" by (simp add: nk)
    have f1: "(1::rat) \<le> of_int f" "(of_int f :: rat) \<le> 2"
      using f by (simp_all only: of_int_le_iff[symmetric, where ?'a = rat] of_int_1 of_int_numeral)
    have lo: "of_int k + 1 / 3 \<le> x" using f1 by (simp add: xk)
    have hi: "x \<le> of_int k + 2 / 3" using f1 by (simp add: xk)
    have k0: "0 \<le> k" using assms(1) by (simp add: k_def)
    have xpos: "0 < x" using lo k0 by (simp add: add_nonneg_pos)
    note b = round64_between [OF xpos xlt lo hi]
    have "\<lceil>round64 x\<rceil> = k + 1" using b by (simp add: ceiling_unique)
    moreover have "\<lceil>x\<rceil> = k + 1" using lo hi by (intro ceiling_unique) simp_all
    moreover have "of_int k + 1 \<le> (2::rat) ^ 52"
    proof -
      have "of_int k < (2::rat) ^ 52" using lo xlt by simp
      then have "k < 2 ^ 52" by (simp only: of_int_less_numeral_power_cancel_iff)
      then have "k + 1 \<le> 2 ^ 52" by simp
      then have "(of_int (k + 1) :: rat) \<le> 2 ^ 52" by (simp only: of_int_le_numeral_power_cancel_iff)
      then show ?thesis by simp
    qed
    ultimately show ?thesis using b k0 by (simp add: abs_less_iff)
  qed
  have fin: "float64_of_rat x = Finite (round64 x)"
  proof -
    have "(2::rat) ^ 52 \<le> 2 ^ 1024" by (rule power_increasing) simp_all
    then have "\<bar>round64 x\<bar> < pow2 1024" using c by (simp add: pow2_def)
    then show ?thesis by (simp add: float64_of_rat_def Let_def abs_less_iff)
  qed
  have rng: "- (2 ^ 63) \<le> \<lceil>round64 x\<rceil> \<and> \<lceil>round64 x\<rceil> < 2 ^ 63"
  proof -
    have "\<lceil>x\<rceil> < 2 ^ 63"
    proof -
      have "x \<le> of_int (2 ^ 52)" using xlt by simp
      then have "\<lceil>x\<rceil> \<le> 2 ^ 52" by (simp only: ceiling_le_iff)
      then show ?thesis by simp
    qed
    moreover have "0 \<le> \<lceil>x\<rceil>" using x0 by simp
    ultimately show ?thesis using c by simp
  qed
  have "trunc (of_int \<lceil>round64 x\<rceil>) = \<lceil>round64 x\<rceil>" by (simp add: trunc_def)
  then have conv: "int_of_float64 (Ceil (Finite (round64 x))) = \<lceil>round64 x\<rceil>"
    using rng by simp
  have "int_of_float64 (Ceil (f64_div_const (f64_mul (float64_of_int n) (Finite 2)) 3))
          = int_of_float64 (Ceil (float64_of_rat x))"
    by (simp add: n2 x_def)
  also have "\<dots> = int_of_float64 (Ceil (Finite (round64 x)))" by (simp only: fin)
  also have "\<dots> = \<lceil>round64 x\<rceil>" by (rule conv)
  also have "\<dots> = \<lceil>x\<rceil>" using c by simp
  finally show ?thesis by (simp only: x_def)
qed


lemma round64_near:
  assumes "0 < x" and "x < 2 ^ 52"
  shows "x - 1 / 4 \<le> round64 x \<and> round64 x \<le> x + 1 / 4"
proof -
  define e where "e = max (exponent x) (- 1022) - 52"
  have "x < 2 ^ Suc 51" using assms(2) by simp
  then have "exponent x \<le> 51" using exponent_le [OF assms(1), of 51] by simp
  then have e: "e \<le> - 1" by (simp add: e_def)
  define j where "j = nat (- e)"
  define P :: rat where "P = 2 ^ j"
  have j: "1 \<le> j" using e by (simp add: j_def)
  have "(2::rat) ^ 1 \<le> 2 ^ j" using j by (intro power_increasing) simp_all
  then have P: "2 \<le> P" by (simp add: P_def)
  have q: "pow2 e = 1 / P" using pow2_nonpos [of e] e by (simp add: j_def P_def)
  define r where "r = round_even (x / pow2 e)"
  have y: "x / pow2 e = x * P" by (simp add: q)
  have r1: "x * P - 1 / 2 \<le> of_int r" using round_even_lower [of "x / pow2 e"] by (simp add: r_def y)
  have r2: "of_int r \<le> x * P + 1 / 2" using round_even_upper [of "x / pow2 e"] by (simp add: r_def y)
  have val: "round64 x = of_int r / P"
    using assms(1) by (simp add: round64_def Let_def e_def [symmetric] r_def y q)
  have Ppos: "0 < P" using P by simp
  have h: "1 / (2 * P) \<le> 1 / 4" using P by (simp add: field_simps)
  have "(x * P - 1 / 2) / P \<le> of_int r / P" using r1 Ppos by (intro divide_right_mono) simp_all
  moreover have "(x * P - 1 / 2) / P = x - 1 / (2 * P)" using Ppos by (simp add: field_simps)
  moreover have "of_int r / P \<le> (x * P + 1 / 2) / P" using r2 Ppos by (intro divide_right_mono) simp_all
  moreover have "(x * P + 1 / 2) / P = x + 1 / (2 * P)" using Ppos by (simp add: field_simps)
  ultimately show ?thesis using h by (simp add: val)
qed

lemma custom_value:
  assumes "0 \<le> n" and "n < 2 ^ 52" and "0 \<le> t" and "t \<le> 1"
  shows "int_of_float64 (Ceil (f64_mul (float64_of_int n) (Finite t)))
           = \<lceil>round64 (of_int n * t)\<rceil>"
proof -
  define x :: rat where "x = of_int n * t"
  have n1: "float64_of_int n = Finite (of_int n)"
    using assms by (intro float64_of_int_exact) simp
  have nlt: "(of_int n :: rat) < 2 ^ 52"
    using assms(2) by (simp only: of_int_less_numeral_power_cancel_iff)
  have n0: "(0::rat) \<le> of_int n" using assms(1) by simp
  have x0: "0 \<le> x" using n0 assms(3) by (simp add: x_def)
  have "x \<le> of_int n * 1" unfolding x_def using n0 assms(4) by (intro mult_left_mono)
  then have xlt: "x < 2 ^ 52" using nlt by simp
  have b: "- (1 / 4) \<le> round64 x \<and> round64 x < 2 ^ 52 + 1 / 4"
  proof (cases "x = 0")
    case True
    then show ?thesis by (simp add: round64_def)
  next
    case False
    then have "0 < x" using x0 by simp
    from round64_near [OF this xlt] x0 xlt show ?thesis by simp
  qed
  have fin: "float64_of_rat x = Finite (round64 x)"
  proof -
    have "(2::rat) ^ 52 + 1 / 4 \<le> 2 ^ 53" by simp
    also have "(2::rat) ^ 53 \<le> 2 ^ 1024" by (rule power_increasing) simp_all
    finally have "\<bar>round64 x\<bar> < pow2 1024" using b by (simp add: pow2_def abs_less_iff)
    then show ?thesis by (simp add: float64_of_rat_def Let_def abs_less_iff)
  qed
  have rng: "- (2 ^ 63) \<le> \<lceil>round64 x\<rceil> \<and> \<lceil>round64 x\<rceil> < 2 ^ 63"
  proof -
    have "round64 x \<le> of_int (2 ^ 53)" using b by simp
    then have u: "\<lceil>round64 x\<rceil> \<le> 2 ^ 53" by (simp only: ceiling_le_iff)
    have "of_int (- 1) < round64 x" using b by simp
    then have l: "- 1 < \<lceil>round64 x\<rceil>" by (simp only: less_ceiling_iff)
    have "(2::int) ^ 53 < 2 ^ 63" "- (2 ^ 63) \<le> (- 1 :: int)" by simp_all
    then show ?thesis using u l by linarith
  qed
  have "trunc (of_int \<lceil>round64 x\<rceil>) = \<lceil>round64 x\<rceil>" by (simp add: trunc_def)
  then have conv: "int_of_float64 (Ceil (Finite (round64 x))) = \<lceil>round64 x\<rceil>"
    using rng by simp
  have "int_of_float64 (Ceil (f64_mul (float64_of_int n) (Finite t)))
          = int_of_float64 (Ceil (float64_of_rat x))"
    by (simp add: n1 x_def)
  also have "\<dots> = int_of_float64 (Ceil (Finite (round64 x)))" by (simp only: fin)
  also have "\<dots> = \<lceil>round64 x\<rceil>" by (rule conv)
  finally show ?thesis by (simp only: x_def)
qed

lemma go_div_nonneg: "0 \<le> a \<Longrightarrow> 0 < b \<Longrightarrow> go_div a b = a div b"
  by (simp add: go_div_def)

lemma sint_in_range:
  "- (2 ^ 63) \<le> x \<Longrightarrow> x < 2 ^ 63 \<Longrightarrow> sint (word_of_int x :: 64 word) = x"
  by (simp add: sint_sbintrunc' signed_take_bit_int_eq_self)

lemma int_of_float64_range: "- (2 ^ 63) \<le> int_of_float64 f \<and> int_of_float64 f < 2 ^ 63"
  by (cases f) simp_all

lemma sint_int_of_float64: "sint (word_of_int (int_of_float64 f) :: 64 word) = int_of_float64 f"
  using int_of_float64_range [of f] by (intro sint_in_range) simp_all

lemma calculateRequired_two_thirds:
  "Type qc = ''two_thirds'' \<Longrightarrow> sint (calculateRequired qc n)
     = int_of_float64 (Ceil (f64_div_const (f64_mul (float64_of_int (sint n)) (Finite 2)) 3))"
  by (simp add: calculateRequired_def sint_int_of_float64)

lemma calculateRequired_custom:
  "Type qc = ''custom'' \<Longrightarrow> sint (calculateRequired qc n)
     = int_of_float64 (Ceil (f64_mul (float64_of_int (sint n)) (Threshold qc)))"
  by (simp add: calculateRequired_def sint_int_of_float64)

lemma int_div_2:
  assumes "0 \<le> sint n"
  shows "sint (int_div n 2 + 1) = sint n div 2 + 1"
proof -
  have "sint n < 2 ^ 63" using sint_lt [of n] by simp
  then have r: "- (2 ^ 63) \<le> sint n div 2 + 1" "sint n div 2 + 1 < 2 ^ 63"
    using assms by simp_all
  have "int_div n 2 + 1 = word_of_int (sint n div 2 + 1)"
    using assms by (simp add: int_div_def go_div_nonneg)
  then show ?thesis using r by (simp only: sint_in_range)
qed

lemma ceiling_near:
  fixes x r :: rat
  assumes "x - 1 / 4 \<le> r" and "r \<le> x + 1 / 4"
  shows "\<lceil>x\<rceil> - 1 \<le> \<lceil>r\<rceil> \<and> \<lceil>r\<rceil> \<le> \<lceil>x\<rceil> + 1"
proof -
  have "of_int (\<lceil>x\<rceil> - 1) - 1 / 4 < r"
    using assms(1) ceiling_correct [of x] by simp
  then have "of_int (\<lceil>x\<rceil> - 2) < r" by simp
  then have "\<lceil>x\<rceil> - 2 < \<lceil>r\<rceil>" by (simp only: less_ceiling_iff)
  moreover have "x \<le> of_int \<lceil>x\<rceil>" by (rule le_of_int_ceiling)
  then have "r \<le> of_int \<lceil>x\<rceil> + 1" using assms(2) by linarith
  then have "r \<le> of_int (\<lceil>x\<rceil> + 1)" by simp
  then have "\<lceil>r\<rceil> \<le> \<lceil>x\<rceil> + 1" by (simp only: ceiling_le_iff)
  ultimately show ?thesis by simp
qed

lemma custom_near:
  assumes "0 \<le> n" and "n < 2 ^ 52" and "0 \<le> t" and "t \<le> 1"
  shows "\<lceil>of_int n * t\<rceil> - 1 \<le> \<lceil>round64 (of_int n * t)\<rceil>
       \<and> \<lceil>round64 (of_int n * t)\<rceil> \<le> \<lceil>of_int n * t\<rceil> + 1"
proof -
  define x :: rat where "x = of_int n * t"
  have nlt: "(of_int n :: rat) < 2 ^ 52"
    using assms(2) by (simp only: of_int_less_numeral_power_cancel_iff)
  have n0: "(0::rat) \<le> of_int n" using assms(1) by simp
  have x0: "0 \<le> x" using n0 assms(3) by (simp add: x_def)
  have "x \<le> of_int n * 1" unfolding x_def using n0 assms(4) by (intro mult_left_mono)
  then have xlt: "x < 2 ^ 52" using nlt by simp
  have "x - 1 / 4 \<le> round64 x \<and> round64 x \<le> x + 1 / 4"
  proof (cases "x = 0")
    case True
    then show ?thesis by (simp add: round64_def)
  next
    case False
    then have "0 < x" using x0 by simp
    from round64_near [OF this xlt] show ?thesis .
  qed
  then show ?thesis unfolding x_def [symmetric] by (intro ceiling_near) simp_all
qed

lemma float64_of_rat_small:
  assumes "\<bar>round64 x\<bar> < 2 ^ 53"
  shows "float64_of_rat x = Finite (round64 x)"
proof -
  have "(2::rat) ^ 53 \<le> 2 ^ 1024" by (rule power_increasing) simp_all
  then have "\<bar>round64 x\<bar> < pow2 1024" using assms by (simp add: pow2_def)
  then show ?thesis by (simp add: float64_of_rat_def Let_def abs_less_iff)
qed

lemma custom_product:
  assumes "\<bar>n\<bar> < 2 ^ 53" and "round64 (of_int n * t) = r" and "\<bar>r\<bar> < 2 ^ 53"
  shows "int_of_float64 (Ceil (f64_mul (float64_of_int n) (Finite t))) = \<lceil>r\<rceil>"
proof -
  have "float64_of_rat (of_int n * t) = Finite r"
    using float64_of_rat_small [of "of_int n * t"] assms(2,3) by simp
  then have m: "f64_mul (float64_of_int n) (Finite t) = Finite r"
    by (simp add: float64_of_int_exact [OF assms(1)])
  have "r \<le> of_int (2 ^ 53)" using assms(3) by simp
  then have u: "\<lceil>r\<rceil> \<le> 2 ^ 53" by (simp only: ceiling_le_iff)
  have "of_int (- (2 ^ 53) - 1) < r" using assms(3) by simp
  then have l: "- (2 ^ 53) - 1 < \<lceil>r\<rceil>" by (simp only: less_ceiling_iff)
  have "(2::int) ^ 53 < 2 ^ 63" by simp
  then have rng: "- (2 ^ 63) \<le> \<lceil>r\<rceil> \<and> \<lceil>r\<rceil> < 2 ^ 63" using u l by linarith
  have "trunc (of_int \<lceil>r\<rceil>) = \<lceil>r\<rceil>" by (simp add: trunc_def)
  then show ?thesis using rng by (simp add: m)
qed

text \<open>
  What \<open>CalculateQuorum\<close> returns for a number \<open>n\<close> of eligible voters, \<open>0 \<le> n\<close>:
  \<open>n div 2 + 1\<close> for \<open>majority\<close> and for every unknown or empty type, \<open>n\<close> for
  \<open>unanimous\<close>, and \<open>\<lceil>n * 2 / 3\<rceil>\<close> for \<open>two_thirds\<close> when \<open>n < 2 ^ 52\<close>. For
  \<open>custom\<close>, with \<open>n < 2 ^ 52\<close> and a threshold between 0 and 1, the value is the
  ceiling of the product rounded to float64, which is at most one away from the
  ceiling of the product. The result compares \<open>int\<close> values, differences wrapping
  around.
\<close>

lemma CalculateQuorum_in_range:
  assumes "0 \<le> sint n"
  shows "(Type qc = ''majority''
            \<or> (Type qc \<noteq> ''two_thirds'' \<and> Type qc \<noteq> ''unanimous'' \<and> Type qc \<noteq> ''custom'')
          \<longrightarrow> sint (Required (CalculateQuorum qc n yes no)) = sint n div 2 + 1)
       \<and> (Type qc = ''two_thirds'' \<and> sint n < 2 ^ 52
          \<longrightarrow> sint (Required (CalculateQuorum qc n yes no))
                = \<lceil>(of_int (sint n) * 2 / 3 :: rat)\<rceil>)
       \<and> (Type qc = ''unanimous'' \<longrightarrow> Required (CalculateQuorum qc n yes no) = n)
       \<and> (Type qc = ''custom'' \<and> sint n < 2 ^ 52 \<and> Threshold qc = Finite t \<and> 0 \<le> t \<and> t \<le> 1
          \<longrightarrow> sint (Required (CalculateQuorum qc n yes no))
                = \<lceil>round64 (of_int (sint n) * t)\<rceil>
              \<and> \<lceil>of_int (sint n) * t\<rceil> - 1 \<le> sint (Required (CalculateQuorum qc n yes no))
              \<and> sint (Required (CalculateQuorum qc n yes no)) \<le> \<lceil>of_int (sint n) * t\<rceil> + 1)
       \<and> Result (CalculateQuorum qc n yes no)
           = (if Required (CalculateQuorum qc n yes no) \<le>s yes then ''ACCEPTED''
              else if n - Required (CalculateQuorum qc n yes no) <s no then ''REJECTED''
              else ''PENDING'')
       \<and> (Type qc = ''majority'' \<and> n = 0 \<and> yes = 0 \<and> no = 0
          \<longrightarrow> Required (CalculateQuorum qc n yes no) = 1
              \<and> Result (CalculateQuorum qc n yes no) = ''REJECTED'')"
proof -
  have req: "Required (CalculateQuorum qc n yes no) = calculateRequired qc n"
    by (simp add: CalculateQuorum_def Let_def)
  have maj: "Type qc = ''majority''
            \<or> (Type qc \<noteq> ''two_thirds'' \<and> Type qc \<noteq> ''unanimous'' \<and> Type qc \<noteq> ''custom'')
          \<Longrightarrow> sint (calculateRequired qc n) = sint n div 2 + 1"
    using int_div_2 [OF assms] by (auto simp: calculateRequired_def)
  have tt: "Type qc = ''two_thirds'' \<and> sint n < 2 ^ 52
          \<Longrightarrow> sint (calculateRequired qc n) = \<lceil>(of_int (sint n) * 2 / 3 :: rat)\<rceil>"
    using two_thirds_exact [OF assms] by (simp add: calculateRequired_two_thirds)
  have un: "Type qc = ''unanimous'' \<Longrightarrow> calculateRequired qc n = n"
    by (simp add: calculateRequired_def)
  have cu: "Type qc = ''custom'' \<and> sint n < 2 ^ 52 \<and> Threshold qc = Finite t \<and> 0 \<le> t \<and> t \<le> 1
          \<Longrightarrow> sint (calculateRequired qc n) = \<lceil>round64 (of_int (sint n) * t)\<rceil>"
    using custom_value [OF assms, of t] by (simp add: calculateRequired_custom)
  have nr: "Type qc = ''custom'' \<and> sint n < 2 ^ 52 \<and> Threshold qc = Finite t \<and> 0 \<le> t \<and> t \<le> 1
          \<Longrightarrow> \<lceil>of_int (sint n) * t\<rceil> - 1 \<le> sint (calculateRequired qc n)
              \<and> sint (calculateRequired qc n) \<le> \<lceil>of_int (sint n) * t\<rceil> + 1"
    using custom_near [OF assms, of t] cu by simp
  have res: "Result (CalculateQuorum qc n yes no)
           = (if calculateRequired qc n \<le>s yes then ''ACCEPTED''
              else if n - calculateRequired qc n <s no then ''REJECTED''
              else ''PENDING'')"
    by (simp add: CalculateQuorum_def Let_def)
  have zero: "Type qc = ''majority'' \<and> n = 0 \<and> yes = 0 \<and> no = 0
          \<Longrightarrow> calculateRequired qc n = 1 \<and> Result (CalculateQuorum qc n yes no) = ''REJECTED''"
    by (simp add: CalculateQuorum_def Let_def calculateRequired_def int_div_def go_div_def
        word_sle_eq word_sless_alt)
  show ?thesis
    unfolding req using maj tt un cu nr res zero by blast
qed

text \<open>The examples of the specification and of the tests of the repository.\<close>

lemma CalculateQuorum_examples:
  "Required (CalculateQuorum \<lparr>Type = ''majority'', Threshold = Finite 0\<rparr> 5 3 2) = 3
   \<and> Result (CalculateQuorum \<lparr>Type = ''majority'', Threshold = Finite 0\<rparr> 5 3 2) = ''ACCEPTED''
   \<and> Required (CalculateQuorum \<lparr>Type = [], Threshold = Finite 0\<rparr> 5 3 0) = 3
   \<and> Required (CalculateQuorum \<lparr>Type = ''unanimous'', Threshold = Finite 0\<rparr> 3 2 0) = 3
   \<and> Result (CalculateQuorum \<lparr>Type = ''unanimous'', Threshold = Finite 0\<rparr> 3 2 0) = ''PENDING''
   \<and> Required (CalculateQuorum \<lparr>Type = ''majority'', Threshold = Finite 0\<rparr> 0 0 0) = 1
   \<and> Result (CalculateQuorum \<lparr>Type = ''majority'', Threshold = Finite 0\<rparr> 0 0 0) = ''REJECTED''"
  by (simp add: CalculateQuorum_def Let_def calculateRequired_def int_div_def go_div_def
      word_sle_eq word_sless_alt)

text \<open>
  Claim C1. \<open>CalculateQuorum\<close> is to require \<open>ceil(totalEligible * threshold)\<close> yes
  votes for a \<open>custom\<close> quorum, to accept iff \<open>yesVotes \<ge> required\<close> and otherwise to
  reject iff \<open>noVotes > totalEligible - required\<close>. The code multiplies in float64,
  and the rounding of the product can pass an integer. With 100 eligible voters
  and the threshold 0.55 (the float64 nearest to it is the threshold below) the
  product is rounded to the float64 above 55 and the code requires 56 votes, where
  \<open>ceil(100 * 0.55) = 55\<close>: 55 yes votes leave the proposal pending, and 45 no votes
  reject it. The code does not compute the ceiling of the exact product with the
  float64 threshold either: for 10 voters and the threshold 0.9 it returns 9, as
  the tests of the repository expect, and that ceiling is 10.
\<close>

theorem CalculateQuorum_custom_rounding:
  "float64_of_rat (55 / 100) = Finite (2476979795053773 / 4503599627370496)
   \<and> Required (CalculateQuorum
        \<lparr>Type = ''custom'', Threshold = Finite (2476979795053773 / 4503599627370496)\<rparr>
        100 55 0) = 56
   \<and> Result (CalculateQuorum
        \<lparr>Type = ''custom'', Threshold = Finite (2476979795053773 / 4503599627370496)\<rparr>
        100 55 0) = ''PENDING''
   \<and> Result (CalculateQuorum
        \<lparr>Type = ''custom'', Threshold = Finite (2476979795053773 / 4503599627370496)\<rparr>
        100 0 45) = ''REJECTED''
   \<and> \<lceil>(100::rat) * (55 / 100)\<rceil> = 55
   \<and> float64_of_rat (9 / 10) = Finite (8106479329266893 / 9007199254740992)
   \<and> Required (CalculateQuorum
        \<lparr>Type = ''custom'', Threshold = Finite (8106479329266893 / 9007199254740992)\<rparr>
        10 9 1) = 9
   \<and> \<lceil>(10::rat) * (8106479329266893 / 9007199254740992)\<rceil> = 10"
proof -
  have f55: "float64_of_rat (55 / 100) = Finite (2476979795053773 / 4503599627370496)"
  proof -
    have "round64 (55 / 100) = 2476979795053773 / 4503599627370496" by code_simp
    then show ?thesis using float64_of_rat_small [of "55 / 100"] by simp
  qed
  have f9: "float64_of_rat (9 / 10) = Finite (8106479329266893 / 9007199254740992)"
  proof -
    have "round64 (9 / 10) = 8106479329266893 / 9007199254740992" by code_simp
    then show ?thesis using float64_of_rat_small [of "9 / 10"] by simp
  qed
  have c55: "int_of_float64 (Ceil (f64_mul (float64_of_int 100)
      (Finite (2476979795053773 / 4503599627370496)))) = 56"
  proof -
    have p: "round64 (of_int 100 * (2476979795053773 / 4503599627370496))
        = 7740561859543041 / 140737488355328"
      by code_simp
    have c: "\<lceil>(7740561859543041 / 140737488355328 :: rat)\<rceil> = 56" by code_simp
    have "\<bar>7740561859543041 / 140737488355328 :: rat\<bar> < 2 ^ 53" by simp
    from custom_product [OF _ p this] c show ?thesis by simp
  qed
  have c9: "int_of_float64 (Ceil (f64_mul (float64_of_int 10)
      (Finite (8106479329266893 / 9007199254740992)))) = 9"
  proof -
    have p: "round64 (of_int 10 * (8106479329266893 / 9007199254740992)) = 9"
      by code_simp
    have "\<bar>9 :: rat\<bar> < 2 ^ 53" by simp
    from custom_product [OF _ p this] show ?thesis by simp
  qed
  have e55: "\<lceil>(100::rat) * (55 / 100)\<rceil> = 55" by simp
  have e9: "\<lceil>(10::rat) * (8106479329266893 / 9007199254740992)\<rceil> = 10" by code_simp
  have r55: "Required (CalculateQuorum
        \<lparr>Type = ''custom'', Threshold = Finite (2476979795053773 / 4503599627370496)\<rparr>
        100 55 0) = 56"
    by (simp add: CalculateQuorum_def Let_def calculateRequired_def c55)
  have p55: "Result (CalculateQuorum
        \<lparr>Type = ''custom'', Threshold = Finite (2476979795053773 / 4503599627370496)\<rparr>
        100 55 0) = ''PENDING''"
    by (simp add: CalculateQuorum_def Let_def calculateRequired_def c55 word_sle_eq word_sless_alt)
  have j55: "Result (CalculateQuorum
        \<lparr>Type = ''custom'', Threshold = Finite (2476979795053773 / 4503599627370496)\<rparr>
        100 0 45) = ''REJECTED''"
    by (simp add: CalculateQuorum_def Let_def calculateRequired_def c55 word_sle_eq word_sless_alt)
  have r9: "Required (CalculateQuorum
        \<lparr>Type = ''custom'', Threshold = Finite (8106479329266893 / 9007199254740992)\<rparr>
        10 9 1) = 9"
    by (simp add: CalculateQuorum_def Let_def calculateRequired_def c9)
  show ?thesis
    by (intro conjI) (rule f55 r55 p55 j55 e55 f9 r9 e9)+
qed

subsection \<open>Expiry of a tally\<close>

lemma ComputeTally_IsExpired:
  "IsExpired (ComputeTally now proposal votes c)
     = (0 <s ProposalTTLDays (Governance c)
        \<and> CreatedAt proposal + sint (ProposalTTLDays (Governance c) * 24 * Hour) < now)"
  by (simp add: ComputeTally_def Let_def Add_def)

lemma ComputeTally_expired_result:
  "IsExpired (ComputeTally now proposal votes c)
     \<Longrightarrow> Result (tally_QuorumResult (ComputeTally now proposal votes c)) = ''EXPIRED''"
  by (simp add: ComputeTally_def Let_def)

lemma ttl_duration_in_range:
  assumes "0 \<le> sint ttlDays" and "sint ttlDays \<le> 106751"
  shows "sint (ttlDays * 24 * Hour) = sint ttlDays * 86400000000000"
proof -
  have "ttlDays * 24 * Hour = ttlDays * 86400000000000" by (simp add: Hour_def)
  moreover have "sint (ttlDays * 86400000000000) = signed_take_bit 63 (sint ttlDays * 86400000000000)"
    by (simp add: sint_word_ariths)
  moreover have "signed_take_bit 63 (sint ttlDays * 86400000000000) = sint ttlDays * 86400000000000"
    using assms by (intro signed_take_bit_int_eq_self) simp_all
  ultimately show ?thesis by simp
qed

lemma ComputeTally_IsExpired_in_range:
  assumes "sint (ProposalTTLDays (Governance c)) \<le> 106751"
  shows "IsExpired (ComputeTally now proposal votes c)
     = (0 < sint (ProposalTTLDays (Governance c))
        \<and> CreatedAt proposal + sint (ProposalTTLDays (Governance c)) * 86400000000000 < now)"
proof (cases "0 < sint (ProposalTTLDays (Governance c))")
  case True
  then have "sint (ProposalTTLDays (Governance c) * 24 * Hour)
      = sint (ProposalTTLDays (Governance c)) * 86400000000000"
    using assms by (intro ttl_duration_in_range) simp_all
  then show ?thesis by (simp add: ComputeTally_IsExpired word_sless_alt)
next
  case False
  then show ?thesis by (simp add: ComputeTally_IsExpired word_sless_alt)
qed

text \<open>
  Claim C3. \<open>ComputeTally\<close> sets \<open>isExpired\<close> iff \<open>ttlDays > 0\<close> and \<open>now\<close> is
  after \<open>createdAt\<close> plus \<open>ttlDays\<close> days, and an expired tally has the result
  \<open>EXPIRED\<close>. The second part holds always (\<open>ComputeTally_expired_result\<close>) and
  the first for a TTL of at most 106751 days (\<open>ComputeTally_IsExpired_in_range\<close>).
  From 106752 days on the TTL in nanoseconds does not fit a \<open>time.Duration\<close>: the
  product wraps around, and a proposal created at this very instant is reported as
  expired.
\<close>

theorem ComputeTally_ttl_overflow:
  "IsExpired (ComputeTally 0 \<lparr>ID = ''p'', prop_RuleID = ''r'', CreatedAt = 0\<rparr> []
      \<lparr>Governance = \<lparr>Voters = [], Quorum = \<lparr>Type = ''majority'', Threshold = Finite 0\<rparr>,
         ProposalTTLDays = 106752, PerRuleOverrides = Map.empty\<rparr>, Roles = Map.empty\<rparr>)
   \<and> \<not> ((0::int) < 106752 \<and> (0::int) + 106752 * 86400000000000 < 0)"
  by (simp add: ComputeTally_IsExpired Hour_def word_sless_alt)

section \<open>Properties of glob matching\<close>

lemma HasPrefix_iff: "HasPrefix s p = (\<exists>t. s = p @ t)"
  unfolding HasPrefix_def by (metis append_eq_conv_conj)

lemma Index_Some:
  "Index s sub = Some i \<Longrightarrow> s = take i s @ sub @ drop (i + length sub) s \<and> i + length sub \<le> length s"
proof (induction s arbitrary: i)
  case Nil
  then show ?case by (simp split: if_splits)
next
  case (Cons c cs)
  show ?case
  proof (cases "HasPrefix (c # cs) sub")
    case True
    then have i: "i = 0" using Cons.prems by simp
    from True obtain t where t: "c # cs = sub @ t" by (auto simp: HasPrefix_iff)
    show ?thesis unfolding i t by simp
  next
    case False
    then obtain j where j: "Index cs sub = Some j" "i = Suc j" using Cons.prems by auto
    from Cons.IH [OF j(1)] show ?thesis by (simp add: j(2))
  qed
qed

lemma Index_first:
  "Index s sub = Some i \<Longrightarrow> j < i \<Longrightarrow> \<not> HasPrefix (drop j s) sub"
proof (induction s arbitrary: i j)
  case Nil
  then show ?case by (simp split: if_splits)
next
  case (Cons c cs)
  show ?case
  proof (cases "HasPrefix (c # cs) sub")
    case True
    then show ?thesis using Cons.prems by simp
  next
    case False
    then obtain k where k: "Index cs sub = Some k" "i = Suc k" using Cons.prems by auto
    show ?thesis
    proof (cases j)
      case 0
      then show ?thesis using False by simp
    next
      case (Suc j')
      then show ?thesis using Cons.IH [OF k(1), of j'] Cons.prems(2) k(2) by simp
    qed
  qed
qed

lemma Contains_iff: "Contains s sub = (\<exists>i. Index s sub = Some i)"
  by (simp add: Contains_def)

lemma SplitN2_Contains:
  assumes "Contains pattern sep"
  shows "\<exists>i. Index pattern sep = Some i \<and> SplitN2 pattern sep = [take i pattern, drop (i + length sep) pattern]"
  using assms by (auto simp: Contains_iff SplitN2_def)

lemma list_ex_upt: "list_ex P [0..<n] = (\<exists>i<n. P i)"
  by (auto simp: list_ex_iff)

lemma matched_iff: "matched r = (r = Inr True)"
  by (cases r) (auto simp: matched_def)

lemma TrimRight_Nil: "TrimRight [] cutset = []"
  by (simp add: TrimRight_def)

text \<open>
  Claim C4. A pattern that contains \<open>**\<close> is split once, on the first \<open>**\<close>, into
  a prefix and a rest. The prefix is compared with its trailing \<open>/\<close> removed, and
  the suffix is the rest without its leading \<open>/\<close> (the claim's example
  \<open>**/*.kt\<close> has the suffix \<open>*.kt\<close>). The path matches iff it starts with the
  prefix and, when the suffix is not empty, the suffix matches (by
  \<open>filepath.Match\<close>) the segments from some index on, joined by \<open>/\<close>, of the
  remaining path: the path after the prefix, without its leading \<open>/\<close>, when the
  trimmed prefix is not empty, and the whole path otherwise. In particular
  \<open>src/model.kt\<close> matches \<open>**/*.kt\<close> and \<open>docs/readme.md\<close> does not.
\<close>

theorem globMatch_double_star:
  assumes "Contains pattern ''**''"
  shows "(let prefix0 = hd (SplitN2 pattern ''**'');
              rest = SplitN2 pattern ''**'' ! 1;
              prefix = TrimRight prefix0 ''/'';
              suffix = TrimLeft rest ''/'';
              remaining = (if prefix \<noteq> [] then TrimLeft (TrimPrefix path prefix) ''/'' else path);
              segments = Split remaining CHR ''/''
          in pattern = prefix0 @ ''**'' @ rest
             \<and> (\<forall>j < length prefix0. \<not> HasPrefix (drop j pattern) ''**'')
             \<and> globMatch path pattern
                  = (HasPrefix path prefix
                     \<and> (suffix \<noteq> [] \<longrightarrow>
                          (\<exists>i < length segments.
                             Match suffix (Join (drop i segments) ''/'') = Inr True))))
       \<and> globMatch ''src/model.kt'' ''**/*.kt''
       \<and> \<not> globMatch ''docs/readme.md'' ''**/*.kt''"
proof -
  from SplitN2_Contains [OF assms] obtain i where
    i: "Index pattern ''**'' = Some i"
    and sp: "SplitN2 pattern ''**'' = [take i pattern, drop (i + 2) pattern]" by auto
  define prefix0 where "prefix0 = take i pattern"
  define rest where "rest = drop (i + 2) pattern"
  have len: "i + 2 \<le> length pattern" using Index_Some [OF i] by simp
  have p: "pattern = prefix0 @ ''**'' @ rest"
    using Index_Some [OF i] by (simp add: prefix0_def rest_def)
  have l: "length prefix0 = i" using len by (simp add: prefix0_def)
  have first: "\<forall>j < length prefix0. \<not> HasPrefix (drop j pattern) ''**''"
    using Index_first [OF i] l by simp
  have hp: "HasPrefix path [] = True" by (simp add: HasPrefix_def)
  have sp': "SplitN2 pattern ''**'' = [prefix0, rest]" by (simp add: sp prefix0_def rest_def)
  have g: "globMatch path pattern
      = (let prefix = TrimRight prefix0 ''/'';
             suffix = TrimLeft rest ''/'';
             remaining = (if prefix \<noteq> [] then TrimLeft (TrimPrefix path prefix) ''/'' else path);
             segments = Split remaining CHR ''/''
         in (HasPrefix path prefix
                     \<and> (suffix \<noteq> [] \<longrightarrow>
                          (\<exists>i < length segments.
                             Match suffix (Join (drop i segments) ''/'') = Inr True))))"
    using assms
    by (cases "prefix0 = []")
       (auto simp: globMatch_def sp' Let_def list_ex_upt matched_iff TrimRight_Nil hp)
  have e1: "globMatch ''src/model.kt'' ''**/*.kt''" by code_simp
  have e2: "\<not> globMatch ''docs/readme.md'' ''**/*.kt''" by code_simp
  have h: "hd (SplitN2 pattern ''**'') = prefix0" "SplitN2 pattern ''**'' ! 1 = rest"
    by (simp_all add: sp')
  show ?thesis
    unfolding Let_def h using p first g [unfolded Let_def] e1 e2 by (intro conjI)
qed

theorem globMatch_double_star_witness:
  "Contains ''domain/**/*.kt'' ''**''
   \<and> globMatch ''domain/service/impl/User.kt'' ''domain/**/*.kt''"
proof -
  have h: "Contains ''domain/**/*.kt'' ''**''" by code_simp
  have s: "SplitN2 ''domain/**/*.kt'' ''**'' = [''domain/'', ''/*.kt'']" by code_simp
  have t: "TrimRight ''domain/'' ''/'' = ''domain''" "TrimLeft ''/*.kt'' ''/'' = ''*.kt''"
    by code_simp+
  have r: "HasPrefix ''domain/service/impl/User.kt'' ''domain''"
    "Split (TrimLeft (TrimPrefix ''domain/service/impl/User.kt'' ''domain'') ''/'') CHR ''/''
       = [''service'', ''impl'', ''User.kt'']"
    by code_simp+
  have m: "Match ''*.kt'' (Join (drop 2 [''service'', ''impl'', ''User.kt'']) ''/'') = Inr True"
    by code_simp
  have "\<exists>i < length [''service'', ''impl'', ''User.kt''].
           Match ''*.kt'' (Join (drop i [''service'', ''impl'', ''User.kt'']) ''/'') = Inr True"
    using m by (intro exI [of _ 2]) simp
  then show ?thesis
    using globMatch_double_star [OF h, of "''domain/service/impl/User.kt''"] h
    by (simp add: Let_def s t r)
qed

section \<open>Properties of the engine\<close>

subsection \<open>Exceptions\<close>

lemma applyExceptions_filter:
  "applyExceptions now e violations
     = filter (\<lambda>v. \<not> isExcepted v (activeExceptions now e)) violations"
proof (cases "activeExceptions now e")
  case Nil
  then show ?thesis by (simp add: applyExceptions_def isExcepted_def)
next
  case (Cons a list)
  then show ?thesis by (simp add: applyExceptions_def)
qed

lemma match_result_iff: "(case r of Inl _ \<Rightarrow> False | Inr m \<Rightarrow> m) = (r = Inr True)"
  by (cases r) auto

lemma exception_covers_iff:
  "exception_covers v exc
     = (exc_RuleID exc = RuleID v \<and> (\<exists>pattern \<in> set (Paths exc). Match pattern (FilePath v) = Inr True))"
  by (simp add: exception_covers_def list_ex_iff match_result_iff)

lemma active_iff:
  "exc \<in> set (activeExceptions now e)
     = (exc \<in> set (Exceptions e) \<and> (ExpiresAt exc = None \<or> (\<exists>t. ExpiresAt exc = Some t \<and> now \<le> t)))"
  by (cases "ExpiresAt exc") (auto simp: activeExceptions_def)

text \<open>
  Claim C2, as amended. After all rules have run, the engine drops a violation iff some
  exception that is active at the evaluation time \<open>now\<close> has the violation's rule id
  and a path pattern that \<open>filepath.Match\<close> matches against the violation's file
  path, where an exception is active iff its \<open>expiresAt\<close> is absent or not before
  \<open>now\<close> (\<open>now \<le> expiresAt\<close>). The violations that stay keep their order. An
  exception that expired before \<open>now\<close> or that names another rule suppresses nothing.
\<close>

theorem applyExceptions_drops:
  "applyExceptions now e violations
     = filter (\<lambda>v. \<not> (\<exists>exc \<in> set (Exceptions e).
                (ExpiresAt exc = None \<or> (\<exists>t. ExpiresAt exc = Some t \<and> now \<le> t))
                \<and> exc_RuleID exc = RuleID v
                \<and> (\<exists>pattern \<in> set (Paths exc). Match pattern (FilePath v) = Inr True)))
         violations
   \<and> (\<forall>allViolations. run_rules rc (Rules e) changedFiles diffContent [] = Inr allViolations
        \<longrightarrow> (\<exists>res. Run rc now e changedFiles diffContent = Inr res
                  \<and> Violations res = applyExceptions now e allViolations))"
proof -
  have "isExcepted v (activeExceptions now e)
      = (\<exists>exc \<in> set (Exceptions e).
                (ExpiresAt exc = None \<or> (\<exists>t. ExpiresAt exc = Some t \<and> now \<le> t))
                \<and> exc_RuleID exc = RuleID v
                \<and> (\<exists>pattern \<in> set (Paths exc). Match pattern (FilePath v) = Inr True))" for v
    unfolding isExcepted_def list_ex_iff exception_covers_iff Bex_def active_iff
    by blast
  then show ?thesis by (simp add: applyExceptions_filter Run_def Let_def)
qed

theorem applyExceptions_drops_witness:
  "applyExceptions 10
     \<lparr>Rules = [],
      Exceptions = [\<lparr>exc_ID = ''e1'', exc_RuleID = ''domain_no_infra'',
                     Paths = [''domain/legacy/*.kt''], Reason = ''legacy'', CreatedBy = ''a'',
                     exc_CreatedAt = 1, ExpiresAt = None\<rparr>,
                    \<lparr>exc_ID = ''e2'', exc_RuleID = ''no_println'',
                     Paths = [''app/*.kt''], Reason = ''old'', CreatedBy = ''a'',
                     exc_CreatedAt = 1, ExpiresAt = Some 3\<rparr>]\<rparr>
     [\<lparr>RuleID = ''domain_no_infra'', Severity = ''error'', Description = ''d'',
       FilePath = ''domain/legacy/OldAdapter.kt'', DiffSnippet = ''+x'', LLMExplanation = []\<rparr>,
      \<lparr>RuleID = ''other_rule'', Severity = ''error'', Description = ''d'',
       FilePath = ''domain/legacy/OldAdapter.kt'', DiffSnippet = ''+x'', LLMExplanation = []\<rparr>,
      \<lparr>RuleID = ''no_println'', Severity = ''warning'', Description = ''d'',
       FilePath = ''app/Main.kt'', DiffSnippet = ''+y'', LLMExplanation = []\<rparr>]
   = [\<lparr>RuleID = ''other_rule'', Severity = ''error'', Description = ''d'',
       FilePath = ''domain/legacy/OldAdapter.kt'', DiffSnippet = ''+x'', LLMExplanation = []\<rparr>,
      \<lparr>RuleID = ''no_println'', Severity = ''warning'', Description = ''d'',
       FilePath = ''app/Main.kt'', DiffSnippet = ''+y'', LLMExplanation = []\<rparr>]"
proof -
  have m: "Match ''domain/legacy/*.kt'' ''domain/legacy/OldAdapter.kt'' = Inr True"
    by code_simp
  show ?thesis
    by (subst applyExceptions_drops [THEN conjunct1]) (simp add: m)
qed

text \<open>
  The claim as it is worded calls an exception active only if \<open>expiresAt > now\<close>. An
  exception that expires exactly at \<open>now\<close> is not active in that sense, and the code
  still applies it.
\<close>

theorem applyExceptions_boundary_counterexample:
  "applyExceptions 10
     \<lparr>Rules = [],
      Exceptions = [\<lparr>exc_ID = ''e1'', exc_RuleID = ''domain_no_infra'',
                     Paths = [''domain/legacy/*.kt''], Reason = ''legacy'', CreatedBy = ''a'',
                     exc_CreatedAt = 1, ExpiresAt = Some 10\<rparr>]\<rparr>
     [\<lparr>RuleID = ''domain_no_infra'', Severity = ''error'', Description = ''d'',
       FilePath = ''domain/legacy/OldAdapter.kt'', DiffSnippet = ''+x'', LLMExplanation = []\<rparr>]
   = []
   \<and> \<not> ((10::int) < 10)"
  by code_simp

subsection \<open>diff\_pattern\_forbidden\<close>

lemma foldl_append_if:
  "foldl (\<lambda>vs x. if P x then vs @ [g x] else vs) acc xs = acc @ map g (filter P xs)"
  by (induction xs arbitrary: acc) simp_all

lemma foldl_append_each:
  "(\<And>vs x. F vs x = vs @ h x) \<Longrightarrow> foldl F acc xs = acc @ concat (map h xs)"
  by (induction xs arbitrary: acc) simp_all

lemma fileSet_iff: "(foldl (\<lambda>m f. m(f \<mapsto> True)) m0 files) p
     = (if p \<in> set files then Some True else m0 p)"
  by (induction files arbitrary: m0) auto

lemma forbidden_scan_eq:
  "forbidden_scan ctx compiled filesToCheck
     = concat (map (\<lambda>fd. if Path fd \<in> set filesToCheck
                          then map (\<lambda>addedLine. mkViolation ctx (Path fd) (''+'' @ addedLine))
                                 (filter (\<lambda>addedLine. \<exists>re \<in> set compiled. re addedLine) (AddedLines fd))
                          else [])
                (ParseDiff (DiffContent ctx)))"
proof -
  have line: "forbidden_scan_line ctx compiled p = (\<lambda>vs addedLine.
        if (\<exists>re \<in> set compiled. re addedLine) then vs @ [mkViolation ctx p (''+'' @ addedLine)] else vs)" for p
    by (intro ext) (simp add: forbidden_scan_line_def list_ex_iff)
  have step: "forbidden_scan_diff ctx compiled (foldl (\<lambda>m f. m(f \<mapsto> True)) Map.empty filesToCheck) vs fd
      = vs @ (if Path fd \<in> set filesToCheck
                          then map (\<lambda>addedLine. mkViolation ctx (Path fd) (''+'' @ addedLine))
                                 (filter (\<lambda>addedLine. \<exists>re \<in> set compiled. re addedLine) (AddedLines fd))
                          else [])" for vs fd
    by (simp add: forbidden_scan_diff_def fileSet_iff line foldl_append_if)
  show ?thesis
    unfolding forbidden_scan_def Let_def
    by (subst foldl_append_each [where h = "\<lambda>fd. if Path fd \<in> set filesToCheck
                          then map (\<lambda>addedLine. mkViolation ctx (Path fd) (''+'' @ addedLine))
                                 (filter (\<lambda>addedLine. \<exists>re \<in> set compiled. re addedLine) (AddedLines fd))
                          else []"]) (simp_all add: step)
qed

lemma string_elements_Inl:
  "(\<exists>err. string_elements key items acc = Inl err) = (\<exists>item \<in> set items. \<forall>s. item \<noteq> VString s)"
  by (induction items arbitrary: acc) (auto split: cfgval.splits)

lemma getStringSlice_Inl:
  "(\<exists>err. getStringSlice cfg key = Inl err)
     = (case cfg key of
          None \<Rightarrow> True
        | Some (VStrings v) \<Rightarrow> False
        | Some (VList items) \<Rightarrow> (\<exists>item \<in> set items. \<forall>s. item \<noteq> VString s)
        | Some _ \<Rightarrow> True)"
  by (simp add: getStringSlice_def string_elements_Inl split: option.splits cfgval.splits)

lemma string_elements_Inr:
  "(\<exists>v. string_elements key items acc = Inr v)
     = list_all (\<lambda>item. case item of VString _ \<Rightarrow> True | _ \<Rightarrow> False) items"
  by (induction items arbitrary: acc) (auto split: cfgval.splits)

lemma getStringSlice_malformed:
  assumes "cfg key = Some val" and "\<not> is_string_slice val"
  shows "\<exists>err. getStringSlice cfg key = Inl err \<and> config_error_key err = key"
proof (cases val)
  case (VList items)
  then have "\<not> (\<exists>v. string_elements key items [] = Inr v)"
    using assms(2) by (simp add: is_string_slice_def string_elements_Inr)
  then obtain err where e: "string_elements key items [] = Inl err"
    by (cases "string_elements key items []") auto
  have "string_elements key items acc = Inl err' \<Longrightarrow> config_error_key err' = key" for acc err'
    by (induction items arbitrary: acc) (auto split: cfgval.splits)
  then show ?thesis using e assms(1) VList by (simp add: getStringSlice_def)
qed (use assms in \<open>simp_all add: getStringSlice_def is_string_slice_def\<close>)

text \<open>
  Claim C10. When the configuration of a \<open>diff_pattern_forbidden\<close> rule holds an
  \<open>only_in_paths\<close> value that is malformed (not a list, or a list with an element
  that is not a string), \<open>Check\<close> returns no configuration error for it: the only
  configuration error it can return is about \<open>forbidden_regexes\<close>. The result is
  the one for the configuration without \<open>only_in_paths\<close>, and the added lines of
  every changed file are scanned for the forbidden expressions.
\<close>

theorem DiffPatternForbidden_malformed_only_in_paths:
  assumes "RuleConfig ctx ''only_in_paths'' = Some val" and "\<not> is_string_slice val"
  shows "DiffPatternForbiddenChecker_Check rc ctx
           = (case getStringSlice (RuleConfig ctx) ''forbidden_regexes'' of
                Inl e \<Rightarrow> Inl (ConfigError ''diff_pattern_forbidden'' e)
              | Inr forbiddenRegexes \<Rightarrow>
                  (case compile_all rc forbiddenRegexes [] of
                     Inl pattern \<Rightarrow> Inl (InvalidRegex ''diff_pattern_forbidden'' pattern)
                   | Inr compiled \<Rightarrow>
                       Inr (concat (map (\<lambda>fd.
                              if Path fd \<in> set (ChangedFiles ctx)
                              then map (\<lambda>addedLine. mkViolation ctx (Path fd) (''+'' @ addedLine))
                                     (filter (\<lambda>addedLine. \<exists>re \<in> set compiled. re addedLine)
                                        (AddedLines fd))
                              else [])
                            (ParseDiff (DiffContent ctx))))))
       \<and> DiffPatternForbiddenChecker_Check rc ctx
           = DiffPatternForbiddenChecker_Check rc
               (ctx\<lparr>RuleConfig := (RuleConfig ctx)(''only_in_paths'' := None)\<rparr>)
       \<and> (\<forall>name e. DiffPatternForbiddenChecker_Check rc ctx = Inl (ConfigError name e)
             \<longrightarrow> config_error_key e = ''forbidden_regexes'')"
proof -
  obtain err where assms': "getStringSlice (RuleConfig ctx) ''only_in_paths'' = Inl err"
    using getStringSlice_malformed [of "RuleConfig ctx" "''only_in_paths''" val] assms by blast
  have absent: "getStringSlice ((RuleConfig ctx)(''only_in_paths'' := None)) ''only_in_paths''
      = Inl (MissingConfigKey ''only_in_paths'')"
    by (simp add: getStringSlice_def)
  have other: "getStringSlice ((RuleConfig ctx)(''only_in_paths'' := None)) ''forbidden_regexes''
      = getStringSlice (RuleConfig ctx) ''forbidden_regexes''"
    by (simp add: getStringSlice_def)
  have mk: "mkViolation (ctx\<lparr>RuleConfig := m\<rparr>) = mkViolation ctx" for m
    by (intro ext) (simp add: mkViolation_def)
  have scan: "forbidden_scan (ctx\<lparr>RuleConfig := m\<rparr>) compiled files = forbidden_scan ctx compiled files"
    for m compiled files
    by (simp add: forbidden_scan_eq mk cong: if_cong)
  have a: "DiffPatternForbiddenChecker_Check rc ctx
      = (case getStringSlice (RuleConfig ctx) ''forbidden_regexes'' of
           Inl e \<Rightarrow> Inl (ConfigError ''diff_pattern_forbidden'' e)
         | Inr forbiddenRegexes \<Rightarrow>
             (case compile_all rc forbiddenRegexes [] of
                Inl pattern \<Rightarrow> Inl (InvalidRegex ''diff_pattern_forbidden'' pattern)
              | Inr compiled \<Rightarrow> Inr (forbidden_scan ctx compiled (ChangedFiles ctx))))"
    by (simp add: DiffPatternForbiddenChecker_Check_def assms' Let_def split: sum.splits)
  have b: "DiffPatternForbiddenChecker_Check rc
               (ctx\<lparr>RuleConfig := (RuleConfig ctx)(''only_in_paths'' := None)\<rparr>)
      = (case getStringSlice (RuleConfig ctx) ''forbidden_regexes'' of
           Inl e \<Rightarrow> Inl (ConfigError ''diff_pattern_forbidden'' e)
         | Inr forbiddenRegexes \<Rightarrow>
             (case compile_all rc forbiddenRegexes [] of
                Inl pattern \<Rightarrow> Inl (InvalidRegex ''diff_pattern_forbidden'' pattern)
              | Inr compiled \<Rightarrow> Inr (forbidden_scan ctx compiled (ChangedFiles ctx))))"
    by (simp add: DiffPatternForbiddenChecker_Check_def absent other scan Let_def split: sum.splits)
  have key: "getStringSlice cfg k = Inl e \<Longrightarrow> config_error_key e = k" for cfg k e
  proof -
    assume g: "getStringSlice cfg k = Inl e"
    have se: "string_elements k items acc = Inl err' \<Longrightarrow> config_error_key err' = k" for items acc err'
      by (induction items arbitrary: acc) (auto split: cfgval.splits)
    show ?thesis using g se
      by (auto simp: getStringSlice_def split: option.splits cfgval.splits)
  qed
  have c: "\<forall>name e. DiffPatternForbiddenChecker_Check rc ctx = Inl (ConfigError name e)
             \<longrightarrow> config_error_key e = ''forbidden_regexes''"
    unfolding a by (auto split: sum.splits dest: key)
  show ?thesis
    using c unfolding b unfolding a by (simp add: forbidden_scan_eq split: sum.splits)
qed

theorem DiffPatternForbidden_malformed_only_in_paths_witness:
  "RuleConfig
     \<lparr>ChangedFiles = [''a.kt'', ''b.kt''],
      DiffContent = ''diff --git a/a.kt b/a.kt'' @ [CHR 0x0A] @ ''+++ b/a.kt'' @ [CHR 0x0A]
                      @ ''+println(x)'' @ [CHR 0x0A] @ ''+val y = 1'',
      RuleConfig = [''forbidden_regexes'' \<mapsto> VStrings [''println''],
                    ''only_in_paths'' \<mapsto> VList [VString ''src/*'', VInt 3]],
      ctx_Severity = ''warning'', ctx_RuleID = ''no_println'', RuleDesc = ''no println''\<rparr>
     ''only_in_paths'' = Some (VList [VString ''src/*'', VInt 3])
   \<and> \<not> is_string_slice (VList [VString ''src/*'', VInt 3])
   \<and> DiffPatternForbiddenChecker_Check example_Compile
     \<lparr>ChangedFiles = [''a.kt'', ''b.kt''],
      DiffContent = ''diff --git a/a.kt b/a.kt'' @ [CHR 0x0A] @ ''+++ b/a.kt'' @ [CHR 0x0A]
                      @ ''+println(x)'' @ [CHR 0x0A] @ ''+val y = 1'',
      RuleConfig = [''forbidden_regexes'' \<mapsto> VStrings [''println''],
                    ''only_in_paths'' \<mapsto> VList [VString ''src/*'', VInt 3]],
      ctx_Severity = ''warning'', ctx_RuleID = ''no_println'', RuleDesc = ''no println''\<rparr>
     = Inr [\<lparr>RuleID = ''no_println'', Severity = ''warning'', Description = ''no println'',
             FilePath = ''a.kt'', DiffSnippet = ''+println(x)'', LLMExplanation = []\<rparr>]"
proof -
  let ?cfg = "[''forbidden_regexes'' \<mapsto> VStrings [''println''],
               ''only_in_paths'' \<mapsto> VList [VString ''src/*'', VInt 3]]"
  let ?ctx = "\<lparr>ChangedFiles = [''a.kt'', ''b.kt''],
      DiffContent = ''diff --git a/a.kt b/a.kt'' @ [CHR 0x0A] @ ''+++ b/a.kt'' @ [CHR 0x0A]
                      @ ''+println(x)'' @ [CHR 0x0A] @ ''+val y = 1'',
      RuleConfig = ?cfg,
      ctx_Severity = ''warning'', ctx_RuleID = ''no_println'', RuleDesc = ''no println''\<rparr>"
  have h1: "RuleConfig ?ctx ''only_in_paths'' = Some (VList [VString ''src/*'', VInt 3])"
    by simp
  have h2: "\<not> is_string_slice (VList [VString ''src/*'', VInt 3])"
    by (simp add: is_string_slice_def)
  have run: "DiffPatternForbiddenChecker_Check example_Compile
                (?ctx\<lparr>RuleConfig := (RuleConfig ?ctx)(''only_in_paths'' := None)\<rparr>)
      = Inr [\<lparr>RuleID = ''no_println'', Severity = ''warning'', Description = ''no println'',
             FilePath = ''a.kt'', DiffSnippet = ''+println(x)'', LLMExplanation = []\<rparr>]"
    by code_simp
  from DiffPatternForbidden_malformed_only_in_paths [OF h1 h2, of example_Compile]
  have "DiffPatternForbiddenChecker_Check example_Compile ?ctx
      = DiffPatternForbiddenChecker_Check example_Compile
                (?ctx\<lparr>RuleConfig := (RuleConfig ?ctx)(''only_in_paths'' := None)\<rparr>)"
    by blast
  then show ?thesis using h1 h2 run by (simp only: simp_thms)
qed

subsection \<open>imports\_forbidden\<close>

lemma diffMap_find:
  "diffMap fileDiffs file = List.find (\<lambda>fd. Path fd = file) (rev fileDiffs)"
  unfolding diffMap_def
  by (induction fileDiffs rule: rev_induct) auto

lemma segment_ex:
  "list_ex (containsSegment addedLine) (extractPathSegments forbidGlobs)
     = (\<exists>g \<in> set forbidGlobs.
          TrimRight (TrimRight g ''*'') ''/'' \<noteq> []
          \<and> (Contains addedLine (TrimRight (TrimRight g ''*'') ''/'' @ ''/'')
             \<or> Contains addedLine (TrimRight (TrimRight g ''*'') ''/'' @ ''.'')))"
  by (auto simp: list_ex_iff extractPathSegments_def containsSegment_def)

text \<open>
  Claim C5, as amended. For an \<open>imports_forbidden\<close> rule with well-formed
  \<open>from_globs\<close> and \<open>forbid_globs\<close>, the violations are, for every changed file in
  turn that matches some \<open>from_globs\<close> pattern and has a file diff in the parsed
  diff (the last one with its path), one violation for each added line that contains
  \<open>segment @ "/"\<close> or \<open>segment @ "."\<close> for some segment that is not empty and is
  a \<open>forbid_globs\<close> entry with first its trailing \<open>*\<close> and then its trailing
  \<open>/\<close> characters removed; there is no other violation, and an offending line gives
  one violation however many segments it contains. In particular \<open>infra/**\<close> yields
  the segment \<open>infra\<close>, and a line with
  \<open>com.myapp.infra.database.UserRepository\<close> contains \<open>infra.\<close>.
\<close>

theorem ImportsForbidden_spec:
  assumes "getStringSlice (RuleConfig ctx) ''from_globs'' = Inr fromGlobs"
    and "getStringSlice (RuleConfig ctx) ''forbid_globs'' = Inr forbidGlobs"
  shows "ImportsForbiddenChecker_Check ctx
           = Inr (concat (map (\<lambda>file.
                    if matchesAnyGlob file fromGlobs then
                      (case List.find (\<lambda>fd. Path fd = file) (rev (ParseDiff (DiffContent ctx))) of
                         None \<Rightarrow> []
                       | Some fd \<Rightarrow>
                           map (\<lambda>addedLine.
                                  \<lparr>RuleID = ctx_RuleID ctx, Severity = ctx_Severity ctx,
                                   Description = RuleDesc ctx, FilePath = file,
                                   DiffSnippet = ''+'' @ addedLine, LLMExplanation = []\<rparr>)
                             (filter (\<lambda>addedLine. \<exists>g \<in> set forbidGlobs.
                                        TrimRight (TrimRight g ''*'') ''/'' \<noteq> []
                                        \<and> (Contains addedLine (TrimRight (TrimRight g ''*'') ''/'' @ ''/'')
                                           \<or> Contains addedLine (TrimRight (TrimRight g ''*'') ''/'' @ ''.'')))
                                (AddedLines fd)))
                    else [])
                  (ChangedFiles ctx)))
       \<and> TrimRight (TrimRight ''infra/**'' ''*'') ''/'' = ''infra''
       \<and> Contains ''import com.myapp.infra.database.UserRepository'' (''infra'' @ ''.'')"
proof -
  let ?segs = "extractPathSegments forbidGlobs"
  let ?dm = "diffMap (ParseDiff (DiffContent ctx))"
  let ?P = "\<lambda>addedLine. \<exists>g \<in> set forbidGlobs.
                                        TrimRight (TrimRight g ''*'') ''/'' \<noteq> []
                                        \<and> (Contains addedLine (TrimRight (TrimRight g ''*'') ''/'' @ ''/'')
                                           \<or> Contains addedLine (TrimRight (TrimRight g ''*'') ''/'' @ ''.''))"
  let ?h = "\<lambda>file. if matchesAnyGlob file fromGlobs then
                      (case List.find (\<lambda>fd. Path fd = file) (rev (ParseDiff (DiffContent ctx))) of
                         None \<Rightarrow> []
                       | Some fd \<Rightarrow>
                           map (\<lambda>addedLine. mkViolation ctx file (''+'' @ addedLine))
                             (filter ?P (AddedLines fd)))
                    else []"
  have line: "imports_scan_line ctx ?segs f = (\<lambda>vs addedLine.
        if ?P addedLine then vs @ [mkViolation ctx f (''+'' @ addedLine)] else vs)" for f
    by (intro ext) (simp only: imports_scan_line_def segment_ex)
  have step: "imports_scan_file ctx fromGlobs ?segs ?dm vs f = vs @ ?h f" for vs f
    by (simp add: imports_scan_file_def diffMap_find line foldl_append_if split: option.splits)
  have "foldl (imports_scan_file ctx fromGlobs ?segs ?dm) [] (ChangedFiles ctx)
      = [] @ concat (map ?h (ChangedFiles ctx))"
    by (rule foldl_append_each) (rule step)
  then have "ImportsForbiddenChecker_Check ctx = Inr (concat (map ?h (ChangedFiles ctx)))"
    by (simp add: ImportsForbiddenChecker_Check_def Let_def assms)
  moreover have "TrimRight (TrimRight ''infra/**'' ''*'') ''/'' = ''infra''" by code_simp
  moreover have "Contains ''import com.myapp.infra.database.UserRepository'' (''infra'' @ ''.'')"
    by code_simp
  ultimately show ?thesis by (simp only: mkViolation_def simp_thms)
qed

text \<open>
  The claim as it is worded counts every stripped glob as a segment. The glob \<open>**\<close>
  strips to the empty string, and every line with a \<open>/\<close> contains the empty
  string followed by \<open>/\<close>; the code discards an empty segment and reports
  nothing.
\<close>

theorem ImportsForbidden_empty_segment_counterexample:
  "ImportsForbiddenChecker_Check
     \<lparr>ChangedFiles = [''f.kt''],
      DiffContent = ''diff --git a/f.kt b/f.kt'' @ [CHR 0x0A] @ ''+++ b/f.kt'' @ [CHR 0x0A] @ ''+a/b'',
      RuleConfig = [''from_globs'' \<mapsto> VStrings [''*.kt''], ''forbid_globs'' \<mapsto> VStrings [''**'']],
      ctx_Severity = ''error'', ctx_RuleID = ''r'', RuleDesc = ''d''\<rparr>
     = Inr []
   \<and> matchesAnyGlob ''f.kt'' [''*.kt'']
   \<and> ParseDiff (''diff --git a/f.kt b/f.kt'' @ [CHR 0x0A] @ ''+++ b/f.kt'' @ [CHR 0x0A] @ ''+a/b'')
       = [\<lparr>Path = ''f.kt'', AddedLines = [''a/b'']\<rparr>]
   \<and> Contains ''a/b'' (spec_segment ''**'' @ ''/'')"
  by code_simp

theorem ImportsForbidden_spec_witness:
  "getStringSlice
     [''from_globs'' \<mapsto> VStrings [''domain/**''], ''forbid_globs'' \<mapsto> VList [VString ''infra/**'']]
     ''from_globs'' = Inr [''domain/**'']
   \<and> getStringSlice
     [''from_globs'' \<mapsto> VStrings [''domain/**''], ''forbid_globs'' \<mapsto> VList [VString ''infra/**'']]
     ''forbid_globs'' = Inr [''infra/**'']
   \<and> ImportsForbiddenChecker_Check
       \<lparr>ChangedFiles = [''domain/service/UserService.kt'', ''README.md''],
        DiffContent = ''diff --git a/domain/service/UserService.kt b/domain/service/UserService.kt''
                        @ [CHR 0x0A] @ ''+++ b/domain/service/UserService.kt''
                        @ [CHR 0x0A] @ ''+import com.myapp.infra.database.UserRepository''
                        @ [CHR 0x0A] @ ''+val x = 1'',
        RuleConfig = [''from_globs'' \<mapsto> VStrings [''domain/**''],
                      ''forbid_globs'' \<mapsto> VList [VString ''infra/**'']],
        ctx_Severity = ''error'', ctx_RuleID = ''domain_no_infra'', RuleDesc = ''no infra''\<rparr>
     = Inr [\<lparr>RuleID = ''domain_no_infra'', Severity = ''error'', Description = ''no infra'',
             FilePath = ''domain/service/UserService.kt'',
             DiffSnippet = ''+import com.myapp.infra.database.UserRepository'',
             LLMExplanation = []\<rparr>]"
proof -
  let ?ctx = "\<lparr>ChangedFiles = [''domain/service/UserService.kt'', ''README.md''],
        DiffContent = ''diff --git a/domain/service/UserService.kt b/domain/service/UserService.kt''
                        @ [CHR 0x0A] @ ''+++ b/domain/service/UserService.kt''
                        @ [CHR 0x0A] @ ''+import com.myapp.infra.database.UserRepository''
                        @ [CHR 0x0A] @ ''+val x = 1'',
        RuleConfig = [''from_globs'' \<mapsto> VStrings [''domain/**''],
                      ''forbid_globs'' \<mapsto> VList [VString ''infra/**'']],
        ctx_Severity = ''error'', ctx_RuleID = ''domain_no_infra'', RuleDesc = ''no infra''\<rparr>"
  have h1: "getStringSlice (RuleConfig ?ctx) ''from_globs'' = Inr [''domain/**'']"
    by (simp add: getStringSlice_def)
  have h2: "getStringSlice (RuleConfig ?ctx) ''forbid_globs'' = Inr [''infra/**'']"
    by (simp add: getStringSlice_def)
  have "ImportsForbiddenChecker_Check ?ctx
     = Inr [\<lparr>RuleID = ''domain_no_infra'', Severity = ''error'', Description = ''no infra'',
             FilePath = ''domain/service/UserService.kt'',
             DiffSnippet = ''+import com.myapp.infra.database.UserRepository'',
             LLMExplanation = []\<rparr>]"
    by (subst ImportsForbidden_spec [OF h1 h2, THEN conjunct1]) code_simp
  then show ?thesis using h1 h2 by simp
qed

subsection \<open>diff\_pattern\_requires\<close>


lemma compile_all_bad:
  "\<exists>pattern \<in> set patterns. rc pattern = None \<Longrightarrow> \<exists>p. compile_all rc patterns acc = Inl p \<and> rc p = None"
  by (induction patterns arbitrary: acc) (auto split: option.splits)





subsection \<open>Failing rules\<close>

lemma getStringSlice_bad_key:
  "(\<exists>err. getStringSlice cfg key = Inl err) = bad_key cfg key"
proof (cases "cfg key")
  case None
  then show ?thesis by (simp add: getStringSlice_def bad_key_def)
next
  case (Some val)
  show ?thesis
  proof (cases val)
    case (VList items)
    have "(\<exists>err. string_elements key items [] = Inl err) = (\<not> (\<exists>v. string_elements key items [] = Inr v))"
      by (cases "string_elements key items []") auto
    then show ?thesis using Some VList
      by (simp add: getStringSlice_def bad_key_def is_string_slice_def string_elements_Inr)
  qed (use Some in \<open>simp_all add: getStringSlice_def bad_key_def is_string_slice_def\<close>)
qed

lemma getStringSlice_cases:
  obtains (bad) err where "getStringSlice cfg key = Inl err" and "bad_key cfg key"
        | (good) v where "getStringSlice cfg key = Inr v" and "\<not> bad_key cfg key"
  using getStringSlice_bad_key [of cfg key] by (cases "getStringSlice cfg key") auto

lemma compile_all_Inl:
  "(\<exists>p. compile_all rc patterns acc = Inl p) = (\<exists>pattern \<in> set patterns. rc pattern = None)"
  by (induction patterns arbitrary: acc) (auto split: option.splits)

lemma compile_all_cases:
  obtains (bad) p where "compile_all rc patterns [] = Inl p"
      and "\<exists>pattern \<in> set patterns. rc pattern = None"
  | (good) c where "compile_all rc patterns [] = Inr c"
      and "\<forall>pattern \<in> set patterns. rc pattern \<noteq> None"
  using compile_all_Inl [of rc patterns "[]"] by (cases "compile_all rc patterns []") auto

lemma ImportsForbidden_error:
  "(\<exists>err. ImportsForbiddenChecker_Check ctx = Inl err)
     = (bad_key (RuleConfig ctx) ''from_globs'' \<or> bad_key (RuleConfig ctx) ''forbid_globs'')"
  by (cases "RuleConfig ctx" "''from_globs''" rule: getStringSlice_cases;
      cases "RuleConfig ctx" "''forbid_globs''" rule: getStringSlice_cases)
     (simp_all add: ImportsForbiddenChecker_Check_def Let_def)

lemma DiffPatternForbidden_error:
  "(\<exists>err. DiffPatternForbiddenChecker_Check rc ctx = Inl err)
     = (bad_key (RuleConfig ctx) ''forbidden_regexes''
        \<or> (\<exists>forbiddenRegexes. getStringSlice (RuleConfig ctx) ''forbidden_regexes'' = Inr forbiddenRegexes
             \<and> (\<exists>pattern \<in> set forbiddenRegexes. rc pattern = None)))"
proof (cases "RuleConfig ctx" "''forbidden_regexes''" rule: getStringSlice_cases)
  case (bad err)
  then show ?thesis by (simp add: DiffPatternForbiddenChecker_Check_def)
next
  case (good v)
  then show ?thesis
    by (cases rule: compile_all_cases [of rc v])
       (auto simp: DiffPatternForbiddenChecker_Check_def Let_def)
qed

lemma filterFilesByGlobs_Nil:
  "(filterFilesByGlobs files globs = []) = (\<not> (\<exists>f \<in> set files. matchesAnyGlob f globs))"
  by (auto simp: filterFilesByGlobs_def filter_empty_conv)

lemma DiffPatternRequires_error:
  "(\<exists>err. DiffPatternRequiresChecker_Check rc ctx = Inl err)
     = (bad_key (RuleConfig ctx) ''required_regexes''
        \<or> bad_key (RuleConfig ctx) ''only_in_paths''
        \<or> (\<exists>requiredRegexes onlyInPaths.
              getStringSlice (RuleConfig ctx) ''required_regexes'' = Inr requiredRegexes
            \<and> getStringSlice (RuleConfig ctx) ''only_in_paths'' = Inr onlyInPaths
            \<and> (\<exists>f \<in> set (ChangedFiles ctx). matchesAnyGlob f onlyInPaths)
            \<and> (\<exists>pattern \<in> set requiredRegexes. rc pattern = None)))"
proof (cases "RuleConfig ctx" "''required_regexes''" rule: getStringSlice_cases)
  case (bad err)
  then show ?thesis by (simp add: DiffPatternRequiresChecker_Check_def)
next
  case g1: (good rs)
  show ?thesis
  proof (cases "RuleConfig ctx" "''only_in_paths''" rule: getStringSlice_cases)
    case (bad err)
    then show ?thesis using g1 by (simp add: DiffPatternRequiresChecker_Check_def)
  next
    case g2: (good ps)
    show ?thesis
    proof (cases "filterFilesByGlobs (ChangedFiles ctx) ps = []")
      case True
      then show ?thesis using g1 g2
        by (simp add: DiffPatternRequiresChecker_Check_def Let_def filterFilesByGlobs_Nil)
    next
      case False
      then show ?thesis using g1 g2
        by (cases rule: compile_all_cases [of rc rs])
           (auto simp: DiffPatternRequiresChecker_Check_def Let_def filterFilesByGlobs_Nil)
    qed
  qed
qed

lemma run_rules_Inl:
  "(\<exists>err. run_rules rc rules changedFiles diffContent acc = Inl err)
     = (\<exists>rule \<in> set rules. \<not> rule_error rc changedFiles diffContent rule = None)"
  by (induction rules arbitrary: acc) (auto simp: rule_error_def split: option.splits sum.splits)

lemma run_rules_first:
  "run_rules rc rules changedFiles diffContent acc = Inl err
     \<Longrightarrow> \<exists>before rule after. rules = before @ rule # after
           \<and> (\<forall>r \<in> set before. rule_error rc changedFiles diffContent r = None)
           \<and> rule_error rc changedFiles diffContent rule = Some err"
proof (induction rules arbitrary: acc)
  case Nil
  then show ?case by simp
next
  case (Cons rule rules)
  show ?case
  proof (cases "rule_error rc changedFiles diffContent rule")
    case None
    then obtain checker vs where c: "Registry (rule_Type rule) = Some checker"
      "Check rc checker (ruleContext rule changedFiles diffContent) = Inr vs"
      by (auto simp: rule_error_def split: option.splits sum.splits)
    then have "run_rules rc rules changedFiles diffContent (acc @ vs) = Inl err"
      using Cons.prems by simp
    from Cons.IH [OF this] obtain before r after where
      "rules = before @ r # after"
      "\<forall>x \<in> set before. rule_error rc changedFiles diffContent x = None"
      "rule_error rc changedFiles diffContent r = Some err" by blast
    then have "rule # rules = (rule # before) @ r # after
        \<and> (\<forall>x \<in> set (rule # before). rule_error rc changedFiles diffContent x = None)
        \<and> rule_error rc changedFiles diffContent r = Some err"
      using None by simp
    then show ?thesis by blast
  next
    case (Some e)
    then have "run_rules rc (rule # rules) changedFiles diffContent acc = Inl e"
      by (auto simp: rule_error_def split: option.splits sum.splits)
    then have "err = e" using Cons.prems by simp
    then have "rule # rules = [] @ rule # rules
        \<and> (\<forall>x \<in> set []. rule_error rc changedFiles diffContent x = None)
        \<and> rule_error rc changedFiles diffContent rule = Some err"
      using Some by simp
    then show ?thesis by blast
  qed
qed

lemma Registry_cases:
  obtains (unknown) "Registry t = None"
      and "t \<noteq> ''imports_forbidden''" and "t \<noteq> ''diff_pattern_forbidden''"
      and "t \<noteq> ''diff_pattern_requires''"
  | (imp) "t = ''imports_forbidden''" and "Registry t = Some ImportsForbiddenChecker"
  | (forb) "t = ''diff_pattern_forbidden''" and "Registry t = Some DiffPatternForbiddenChecker"
  | (req) "t = ''diff_pattern_requires''" and "Registry t = Some DiffPatternRequiresChecker"
  by (auto simp: Registry_def)

lemma uncompilable_iff: "uncompilable rc pattern = (rc pattern = None)"
  by (simp add: uncompilable_def split: option.splits)

lemma rule_error_fails:
  "(rule_error rc changedFiles diffContent rule = None) = (\<not> rule_fails rc changedFiles rule)"
proof -
  let ?ctx = "ruleContext rule changedFiles diffContent"
  have cfg: "RuleConfig ?ctx = rule_Config rule" "ChangedFiles ?ctx = changedFiles"
    by (simp_all add: ruleContext_def)
  have e: "(rule_error rc changedFiles diffContent rule = None)
      = (case Registry (rule_Type rule) of None \<Rightarrow> False
         | Some checker \<Rightarrow> \<not> (\<exists>err. Check rc checker ?ctx = Inl err))"
    by (auto simp: rule_error_def split: option.splits sum.splits)
  show ?thesis
  proof (cases rule: Registry_cases [of "rule_Type rule"])
    case unknown
    then show ?thesis by (simp add: e rule_fails_def Let_def)
  next
    case imp
    then show ?thesis
      by (simp add: e Registry_def rule_fails_def Let_def ImportsForbidden_error cfg)
  next
    case forb
    show ?thesis
      by (cases "rule_Config rule" "''forbidden_regexes''" rule: getStringSlice_cases)
         (simp_all add: e forb Registry_def rule_fails_def Let_def DiffPatternForbidden_error cfg list_ex_iff
            uncompilable_iff)
  next
    case req
    show ?thesis
      by (cases "rule_Config rule" "''required_regexes''" rule: getStringSlice_cases;
          cases "rule_Config rule" "''only_in_paths''" rule: getStringSlice_cases)
         (simp_all add: e req Registry_def rule_fails_def Let_def DiffPatternRequires_error cfg list_ex_iff
            uncompilable_iff)
  qed
qed

text \<open>
  Claim C8, as amended. \<open>Run\<close> returns an error, and no result, iff some configured
  rule fails: its type is not in the registry, a required key of its configuration is
  missing or wrong-shaped, one of its forbidden expressions does not compile, or one of
  its required expressions does not compile while some changed file matches
  \<open>only_in_paths\<close>. The error is that of the first failing rule; no rule is skipped.
\<close>

theorem Run_fails_fast:
  "(\<exists>err. Run rc now e changedFiles diffContent = Inl err)
     = (\<exists>rule \<in> set (Rules e). rule_fails rc changedFiles rule)
   \<and> (\<forall>err. Run rc now e changedFiles diffContent = Inl err
        \<longrightarrow> (\<exists>before rule after.
               Rules e = before @ rule # after
             \<and> (\<forall>r \<in> set before. \<not> rule_fails rc changedFiles r)
             \<and> rule_fails rc changedFiles rule
             \<and> rule_error rc changedFiles diffContent rule = Some err))"
proof -
  have r: "(Run rc now e changedFiles diffContent = Inl err)
      = (run_rules rc (Rules e) changedFiles diffContent [] = Inl err)" for err
    by (simp add: Run_def Let_def split: sum.splits)
  have a: "(\<exists>err. Run rc now e changedFiles diffContent = Inl err)
     = (\<exists>rule \<in> set (Rules e). rule_fails rc changedFiles rule)"
    unfolding r run_rules_Inl rule_error_fails by simp
  have b: "\<exists>before rule after.
               Rules e = before @ rule # after
             \<and> (\<forall>r \<in> set before. \<not> rule_fails rc changedFiles r)
             \<and> rule_fails rc changedFiles rule
             \<and> rule_error rc changedFiles diffContent rule = Some err"
    if "Run rc now e changedFiles diffContent = Inl err" for err
  proof -
    from that have "run_rules rc (Rules e) changedFiles diffContent [] = Inl err" by (simp add: r)
    from run_rules_first [OF this] obtain before rule after where
      f: "Rules e = before @ rule # after"
      "\<forall>x \<in> set before. rule_error rc changedFiles diffContent x = None"
      "rule_error rc changedFiles diffContent rule = Some err" by blast
    have "\<forall>x \<in> set before. \<not> rule_fails rc changedFiles x"
      using f(2) by (simp add: rule_error_fails)
    moreover have "rule_fails rc changedFiles rule"
      using f(3) rule_error_fails [of rc changedFiles diffContent rule] by auto
    ultimately show ?thesis using f(1,3) by blast
  qed
  show ?thesis using a b by blast
qed

theorem Run_fails_fast_witness:
  "Run example_Compile 0
     \<lparr>Rules = [\<lparr>rule_ID = ''r1'', rule_Description = ''d'', rule_Type = ''imports_forbidden'',
                 rule_Config = [''from_globs'' \<mapsto> VStrings [''domain/**''],
                                ''forbid_globs'' \<mapsto> VStrings [''infra/**'']],
                 rule_Severity = ''error''\<rparr>,
               \<lparr>rule_ID = ''r2'', rule_Description = ''d'', rule_Type = ''diff_pattern_forbidden'',
                 rule_Config = [''forbidden_regexes'' \<mapsto> VStrings [''println'', ''('']],
                 rule_Severity = ''error''\<rparr>,
               \<lparr>rule_ID = ''r3'', rule_Description = ''d'', rule_Type = ''no_such_type'',
                 rule_Config = Map.empty, rule_Severity = ''error''\<rparr>],
      Exceptions = []\<rparr>
     [''domain/A.kt''] []
   = Inl (CheckingRule ''r2'' (InvalidRegex ''diff_pattern_forbidden'' ''(''))"
proof -
  let ?r1 = "\<lparr>rule_ID = ''r1'', rule_Description = ''d'', rule_Type = ''imports_forbidden'',
                 rule_Config = [''from_globs'' \<mapsto> VStrings [''domain/**''],
                                ''forbid_globs'' \<mapsto> VStrings [''infra/**'']],
                 rule_Severity = ''error''\<rparr>"
  let ?r2 = "\<lparr>rule_ID = ''r2'', rule_Description = ''d'', rule_Type = ''diff_pattern_forbidden'',
                 rule_Config = [''forbidden_regexes'' \<mapsto> VStrings [''println'', ''('']],
                 rule_Severity = ''error''\<rparr>"
  let ?r3 = "\<lparr>rule_ID = ''r3'', rule_Description = ''d'', rule_Type = ''no_such_type'',
                 rule_Config = Map.empty, rule_Severity = ''error''\<rparr>"
  let ?e = "\<lparr>Rules = [?r1, ?r2, ?r3], Exceptions = []\<rparr>"
  have f: "rule_fails example_Compile [''domain/A.kt''] ?r2" by code_simp
  have n: "\<not> rule_fails example_Compile [''domain/A.kt''] ?r1" by code_simp
  have e2: "rule_error example_Compile [''domain/A.kt''] [] ?r2
      = Some (CheckingRule ''r2'' (InvalidRegex ''diff_pattern_forbidden'' ''(''))"
    by code_simp
  from f have "\<exists>rule \<in> set (Rules ?e). rule_fails example_Compile [''domain/A.kt''] rule"
    by simp
  then obtain err where err: "Run example_Compile 0 ?e [''domain/A.kt''] [] = Inl err"
    using Run_fails_fast [of example_Compile 0 ?e "[''domain/A.kt'']" "[]"] by blast
  then obtain before rule after where
    b: "Rules ?e = before @ rule # after"
    "\<forall>r \<in> set before. \<not> rule_fails example_Compile [''domain/A.kt''] r"
    "rule_fails example_Compile [''domain/A.kt''] rule"
    "rule_error example_Compile [''domain/A.kt''] [] rule = Some err"
    using Run_fails_fast [of example_Compile 0 ?e "[''domain/A.kt'']" "[]"] by blast
  have "[?r1, ?r2, ?r3] = before @ rule # after" using b(1) by simp
  then have "rule = ?r2"
    using b(2,3) f n
    by (cases before; cases "tl before"; cases "tl (tl before)") auto
  then show ?thesis using err b(4) e2 by simp
qed

text \<open>
  The claim as it is worded makes every wrong-shaped value and every expression that
  does not compile fail the run. A wrong-shaped \<open>only_in_paths\<close> of a
  \<open>diff_pattern_forbidden\<close> rule does not, and neither does a bad required
  expression when no changed file matches \<open>only_in_paths\<close>.
\<close>

theorem Run_fails_fast_counterexample:
  "Run example_Compile 0
     \<lparr>Rules = [\<lparr>rule_ID = ''r1'', rule_Description = ''d'', rule_Type = ''diff_pattern_forbidden'',
                 rule_Config = [''forbidden_regexes'' \<mapsto> VStrings [''println''],
                                ''only_in_paths'' \<mapsto> VInt 3],
                 rule_Severity = ''error''\<rparr>,
               \<lparr>rule_ID = ''r2'', rule_Description = ''d'', rule_Type = ''diff_pattern_requires'',
                 rule_Config = [''required_regexes'' \<mapsto> VStrings [''(''],
                                ''only_in_paths'' \<mapsto> VStrings [''domain/**'']],
                 rule_Severity = ''error''\<rparr>],
      Exceptions = []\<rparr>
     [''app/Main.kt''] []
   = Inr \<lparr>Violations = [], Errors = 0, Warnings = 0\<rparr>
   \<and> \<not> is_string_slice (VInt 3)
   \<and> example_Compile ''('' = None"
  by code_simp

end
